theory Spec2Isabelle
  imports Main "HOL-Library.Sublist"
begin

section \<open>JavaScript strings\<close>

text \<open>
  A JavaScript string is a sequence of UTF-16 code units. The exporter handles
  characters outside Latin-1 (the citation brackets, the dagger and the box-drawing
  sentinel), so a string is modelled as the list of its code units. \<open>js\<close> turns
  an ASCII literal into such a list.
\<close>

type_synonym jstring = "nat list"

definition js :: "string \<Rightarrow> jstring" where
  "js = map of_char"

text \<open>
  The decimal digits of a natural number. This is what \<open>Number.prototype.toString\<close>
  prints for the small integers that count images and parts.
\<close>

fun dec :: "nat \<Rightarrow> jstring" where
  "dec n = (if n < 10 then [48 + n] else dec (n div 10) @ [48 + n mod 10])"

declare dec.simps [simp del]

definition is_digit :: "nat \<Rightarrow> bool" where
  "is_digit c = (48 \<le> c \<and> c \<le> 57)"

text \<open>The mathematical value of a string of decimal digits.\<close>

definition to_number :: "jstring \<Rightarrow> nat" where
  "to_number ds = foldl (\<lambda>acc d. 10 * acc + (d - 48)) 0 ds"

text \<open>
  A Number is a double. The Numbers that a string of decimal digits can denote are the
  non-negative integers that a double represents, and \<open>Infinity\<close>.
\<close>

datatype number = Finite nat | Infinity

fun bit_length :: "nat \<Rightarrow> nat" where
  "bit_length n = (if n = 0 then 0 else Suc (bit_length (n div 2)))"

declare bit_length.simps [simp del]

text \<open>
  The Number value for a natural number: 53 significant bits, round to nearest, ties to
  the even significand, and \<open>Infinity\<close> from \<open>2 ^ 1024\<close> on.
\<close>

definition toDouble :: "nat \<Rightarrow> number" where
  "toDouble m =
     (let e = bit_length m - 53; q = m div 2 ^ e; r = m mod 2 ^ e;
          significand = (if 2 ^ e < 2 * r \<or> (2 * r = 2 ^ e \<and> odd q) then q + 1 else q)
      in if 2 ^ 1024 \<le> significand * 2 ^ e then Infinity else Finite (significand * 2 ^ e))"

text \<open>Unary plus on a string of decimal digits (\<open>+citeIndex\<close>, \<open>+index\<close>).\<close>

definition toNumber :: "jstring \<Rightarrow> number" where
  "toNumber ds = toDouble (to_number ds)"

text \<open>
  \<open>Number::toString\<close> prints the decimal with the fewest significant digits that
  denotes the Number, the closest one if there are several. \<open>nearest x p\<close> looks among
  the two multiples of \<open>p\<close> around \<open>x\<close>; \<open>shortest x j\<close> tries the powers of ten from
  \<open>10 ^ j\<close> downwards.
\<close>

definition nearest :: "nat \<Rightarrow> nat \<Rightarrow> nat option" where
  "nearest x p =
     (let lo = (x div p) * p; hi = lo + p;
          l = (toDouble lo = Finite x); h = (toDouble hi = Finite x)
      in if l \<and> h
         then Some (if x - lo < hi - x \<or> (x - lo = hi - x \<and> even (x div p)) then lo else hi)
         else if l then Some lo
         else if h then Some hi
         else None)"

fun shortest :: "nat \<Rightarrow> nat \<Rightarrow> nat" where
  "shortest x 0 = x"
| "shortest x (Suc j) = (case nearest x (10 ^ Suc j) of Some v \<Rightarrow> v | None \<Rightarrow> shortest x j)"

text \<open>
  The digits in full up to 21 of them, and beyond that the significant digits with a
  point after the first and the exponent.
\<close>

definition numberToString :: "number \<Rightarrow> jstring" where
  "numberToString v =
     (case v of
        Infinity \<Rightarrow> js ''Infinity''
      | Finite x \<Rightarrow>
          (let ds = dec (shortest x (length (dec x)));
               n = length ds;
               s = rev (dropWhile (\<lambda>c. c = 48) (rev ds))
           in if n \<le> 21 then ds
              else if length s = 1 then s @ js ''e+'' @ dec (n - 1)
              else [hd s] @ js ''.'' @ tl s @ js ''e+'' @ dec (n - 1)))"

text \<open>The line terminators that \<open>.\<close>, \<open>^\<close> and \<open>$\<close> look at.\<close>

definition is_line_terminator :: "nat \<Rightarrow> bool" where
  "is_line_terminator c = (c = 10 \<or> c = 13 \<or> c = 8232 \<or> c = 8233)"

text \<open>The class \<open>\s\<close> of ECMAScript.\<close>

definition is_space :: "nat \<Rightarrow> bool" where
  "is_space c = (c = 9 \<or> c = 10 \<or> c = 11 \<or> c = 12 \<or> c = 13 \<or> c = 32 \<or> c = 160
     \<or> c = 5760 \<or> (8192 \<le> c \<and> c \<le> 8202) \<or> c = 8232 \<or> c = 8233 \<or> c = 8239
     \<or> c = 8287 \<or> c = 12288 \<or> c = 65279)"

definition is_alnum :: "nat \<Rightarrow> bool" where
  "is_alnum c = ((97 \<le> c \<and> c \<le> 122) \<or> (65 \<le> c \<and> c \<le> 90) \<or> (48 \<le> c \<and> c \<le> 57))"

text \<open>\<open>s.split(c)\<close> for a one-character separator: never an empty array.\<close>

fun split_on :: "nat \<Rightarrow> jstring \<Rightarrow> jstring list" where
  "split_on c [] = [[]]"
| "split_on c (x # xs) =
     (if x = c then [] # split_on c xs
      else (case split_on c xs of [] \<Rightarrow> [[x]] | y # ys \<Rightarrow> (x # y) # ys))"

text \<open>Reading an array element: \<open>undefined\<close> out of range becomes \<open>None\<close>.\<close>

definition nth_opt :: "'a list \<Rightarrow> nat \<Rightarrow> 'a option" where
  "nth_opt xs i = (if i < length xs then Some (xs ! i) else None)"

text \<open>\<open>Array.prototype.join\<close>.\<close>

fun join :: "jstring \<Rightarrow> jstring list \<Rightarrow> jstring" where
  "join sep [] = []"
| "join sep [x] = x"
| "join sep (x # y # ys) = x @ sep @ join sep (y # ys)"

text \<open>\<open>s.startsWith(p)\<close>.\<close>

definition startsWith :: "jstring \<Rightarrow> jstring \<Rightarrow> bool" where
  "startsWith s p = (take (length p) s = p)"

text \<open>\<open>s.padStart(n, '0')\<close>.\<close>

definition padStart0 :: "nat \<Rightarrow> jstring \<Rightarrow> jstring" where
  "padStart0 n s = replicate (n - length s) 48 @ s"

section \<open>Regular expressions\<close>

text \<open>
  The fragment of ECMAScript regular expressions that the exporter's literals use.
  Quantifiers only ever apply to a character class there. \<open>Bol\<close> and \<open>Eol\<close>
  are \<open>^\<close> and \<open>$\<close> under the \<open>m\<close> flag.
\<close>

datatype rx =
    Lit nat
  | Cls "nat \<Rightarrow> bool"
  | Seq rx rx
  | Alt rx rx
  | PlusG "nat \<Rightarrow> bool"
  | PlusL "nat \<Rightarrow> bool"
  | Grp rx
  | Bol
  | Eol

text \<open>
  A matcher state: the text before the position (reversed), the text from the position
  on, and the captures recorded so far. \<open>run\<close> lists the states in which a match
  of the expression can end, in the order in which the backtracking matcher of
  ECMAScript tries them; the first one is the match.
\<close>

type_synonym mstate = "jstring \<times> jstring \<times> jstring list"

fun steps :: "(nat \<Rightarrow> bool) \<Rightarrow> jstring \<Rightarrow> jstring \<Rightarrow> (jstring \<times> jstring) list" where
  "steps P p [] = []"
| "steps P p (x # xs) = (if P x then (x # p, xs) # steps P (x # p) xs else [])"

fun run :: "rx \<Rightarrow> mstate \<Rightarrow> mstate list" where
  "run (Lit c) (p, s, g) =
     (case s of [] \<Rightarrow> [] | x # xs \<Rightarrow> if x = c then [(x # p, xs, g)] else [])"
| "run (Cls P) (p, s, g) =
     (case s of [] \<Rightarrow> [] | x # xs \<Rightarrow> if P x then [(x # p, xs, g)] else [])"
| "run (Seq a b) st = concat (map (run b) (run a st))"
| "run (Alt a b) st = run a st @ run b st"
| "run (PlusG P) (p, s, g) = rev (map (\<lambda>(p', s'). (p', s', g)) (steps P p s))"
| "run (PlusL P) (p, s, g) = map (\<lambda>(p', s'). (p', s', g)) (steps P p s)"
| "run (Grp a) (p, s, g) =
     map (\<lambda>(p', s', g'). (p', s', g' @ [take (length s - length s') s])) (run a (p, s, g))"
| "run Bol (p, s, g) =
     (case p of [] \<Rightarrow> [(p, s, g)] | x # _ \<Rightarrow> if is_line_terminator x then [(p, s, g)] else [])"
| "run Eol (p, s, g) =
     (case s of [] \<Rightarrow> [(p, s, g)] | x # _ \<Rightarrow> if is_line_terminator x then [(p, s, g)] else [])"

text \<open>A literal sequence of code units, given by its first unit and the rest.\<close>

fun lits :: "nat \<Rightarrow> jstring \<Rightarrow> rx" where
  "lits c [] = Lit c"
| "lits c (d # ds) = Seq (Lit c) (lits d ds)"

text \<open>
  Scanning with the \<open>g\<close> flag: the subject is cut into the code units that no match
  covers and the matches (text and captures), from left to right. After an empty
  match the scanner moves on by one code unit, as \<open>lastIndex\<close> does.
\<close>

datatype tok = C nat | M jstring "jstring list"

function scan :: "rx \<Rightarrow> jstring \<Rightarrow> jstring \<Rightarrow> tok list" where
  "scan re p s =
     (case run re (p, s, []) of
        [] \<Rightarrow> (case s of [] \<Rightarrow> [] | x # xs \<Rightarrow> C x # scan re (x # p) xs)
      | (p', s', g) # _ \<Rightarrow>
          if length s' < length s
          then M (take (length s - length s') s) g # scan re p' s'
          else M [] g # (case s of [] \<Rightarrow> [] | x # xs \<Rightarrow> C x # scan re (x # p) xs))"
  by pat_completeness auto
termination
  by (relation "measure (\<lambda>(re, p, s). length s)") auto

declare scan.simps [simp del]

text \<open>\<open>s.match(re)\<close> with the \<open>g\<close> flag: all matches; the empty list stands for \<open>null\<close>.\<close>

definition match_g :: "rx \<Rightarrow> jstring \<Rightarrow> jstring list" where
  "match_g re s = concat (map (\<lambda>t. case t of C _ \<Rightarrow> [] | M m _ \<Rightarrow> [m]) (scan re [] s))"

text \<open>\<open>s.match(re)\<close> without the \<open>g\<close> flag: the captures of the leftmost match.\<close>

definition match_first :: "rx \<Rightarrow> jstring \<Rightarrow> jstring list option" where
  "match_first re s =
     (case concat (map (\<lambda>t. case t of C _ \<Rightarrow> [] | M _ g \<Rightarrow> [g]) (scan re [] s)) of
        [] \<Rightarrow> None | g # _ \<Rightarrow> Some g)"

text \<open>\<open>re.test(s)\<close> for an expression without the \<open>g\<close> flag.\<close>

definition test :: "rx \<Rightarrow> jstring \<Rightarrow> bool" where
  "test re s = (match_first re s \<noteq> None)"

text \<open>
  \<open>s.replace(re, f)\<close> with the \<open>g\<close> flag. The callback gets the ordinal of the
  match (the counters that the source's closures keep), the matched text and the
  captures.
\<close>

fun emit :: "(nat \<Rightarrow> jstring \<Rightarrow> jstring list \<Rightarrow> jstring) \<Rightarrow> nat \<Rightarrow> tok list \<Rightarrow> jstring" where
  "emit f k [] = []"
| "emit f k (C x # ts) = x # emit f k ts"
| "emit f k (M m g # ts) = f k m g @ emit f (Suc k) ts"

definition replace_g :: "rx \<Rightarrow> (nat \<Rightarrow> jstring \<Rightarrow> jstring list \<Rightarrow> jstring) \<Rightarrow> jstring \<Rightarrow> jstring" where
  "replace_g re f s = emit f 0 (scan re [] s)"

section \<open>The image data model (image-types.ts)\<close>

datatype ImageHandlingStrategy = embed_base64 | text_marker | separate_files

datatype ImageContentType = image_asset_pointer | image_url | multimodal_text

record Author =
  role :: jstring
  name :: "jstring option"

record ImageContext =
  ctx_conversationId :: jstring
  ctx_messageId :: jstring
  ctx_imageIndex :: nat
  ctx_mimeType :: jstring
  ctx_originalUrl :: jstring
  ctx_contentType :: ImageContentType
  ctx_author :: "Author option"
  ctx_timestamp :: "nat option"

record MessageContext =
  mc_author :: jstring
  mc_role :: jstring

record ImageMetadata =
  im_originalUrl :: jstring
  im_mimeType :: jstring
  im_fileSize :: "nat option"
  im_timestamp :: "nat option"
  im_messageContext :: "MessageContext option"

record ProcessedImage =
  img_id :: jstring
  img_content :: jstring
  img_originalData :: "jstring option"
  img_metadata :: "ImageMetadata option"
  img_fileName :: "jstring option"

text \<open>A \<open>Blob\<close>: its bytes (as the code units \<open>atob\<close> returns) and its type.\<close>

record Blob =
  blob_bytes :: jstring
  blob_type :: jstring

record ExportFile =
  ef_path :: jstring
  ef_data :: Blob
  ef_mimeType :: jstring

record ExportImageContext =
  ec_messageId :: "jstring option"
  ec_author :: jstring
  ec_role :: jstring

record ExportImage =
  ei_id :: jstring
  ei_originalUrl :: jstring
  ei_fileName :: jstring
  ei_mimeType :: jstring
  ei_size :: nat
  ei_messageContext :: ExportImageContext

record ExportMetadata =
  em_version :: jstring
  em_exportDate :: jstring
  em_conversationTitle :: jstring
  em_imageHandlingStrategy :: ImageHandlingStrategy
  em_totalImages :: nat
  em_images :: "ExportImage list"
  em_imageQuality :: nat
  em_maxImageSize :: nat
  em_includeImageMetadata :: bool

section \<open>The browser and the network\<close>

text \<open>
  What the code reads from its surroundings is a parameter of the model. \<open>runtime\<close>
  holds the built-ins whose result depends on the browser only: \<open>btoa\<close> and \<open>atob\<close>
  (\<open>None\<close> when they throw InvalidCharacterError), \<open>String.prototype.toLowerCase\<close>,
  the stored custom marker (\<open>ScriptStorage.get(KEY_IMAGE_CUSTOM_MARKER)\<close>) and the
  text of \<open>new Date().toISOString()\<close>. \<open>task_env\<close> holds what one call of the
  handler's per-image task observes: how \<open>getBase64FromImageUrl\<close> settles
  (\<open>None\<close> when \<open>loadImage\<close> rejects), the value of \<open>Date.now()\<close> read by
  \<open>generateImageId\<close>, and the id that the handler's catch block builds from
  \<open>Date.now()\<close> and \<open>Math.random()\<close>. Timestamps are whole numbers here.
\<close>

datatype js_error = InvalidCharacterError | TypeError

record runtime =
  btoa :: "jstring \<Rightarrow> jstring option"
  atob :: "jstring \<Rightarrow> jstring option"
  toLowerCase :: "jstring \<Rightarrow> jstring"
  customMarker :: "jstring option"
  currentTimestamp :: jstring

record task_env =
  fetched :: "jstring option"
  now :: nat
  errorId :: jstring

section \<open>Image utilities (image-utils.ts)\<close>

definition dataUrlRegex :: rx where
  "dataUrlRegex = Seq (lits 100 (js ''ata:'')) (Seq (Grp (PlusG (\<lambda>c. c \<noteq> 59))) (Lit 59))"

definition getMimeType :: "runtime \<Rightarrow> jstring \<Rightarrow> jstring" where
  "getMimeType rt dataUrlOrUrl =
     (if startsWith dataUrlOrUrl (js ''data:'')
      then (case match_first dataUrlRegex dataUrlOrUrl of
              Some (m # _) \<Rightarrow> m
            | _ \<Rightarrow> js ''image/png'')
      else (let extension = toLowerCase rt (last (split_on 46 dataUrlOrUrl)) in
            if extension = js ''jpg'' \<or> extension = js ''jpeg'' then js ''image/jpeg''
            else if extension = js ''png'' then js ''image/png''
            else if extension = js ''gif'' then js ''image/gif''
            else if extension = js ''webp'' then js ''image/webp''
            else if extension = js ''svg'' then js ''image/svg+xml''
            else js ''image/png''))"

definition generateImageId :: "runtime \<Rightarrow> task_env \<Rightarrow> ImageContext \<Rightarrow> js_error + jstring" where
  "generateImageId rt te context =
     (let timestamp = (case ctx_timestamp context of
                         None \<Rightarrow> now te
                       | Some t \<Rightarrow> if t = 0 then now te else t) in
      case btoa rt (ctx_conversationId context @ js ''-'' @ ctx_messageId context @ js ''-''
                     @ dec (ctx_imageIndex context) @ js ''-'' @ dec timestamp) of
        None \<Rightarrow> Inl InvalidCharacterError
      | Some hash \<Rightarrow>
          Inr (take 16 (replace_g (Cls (\<lambda>c. \<not> is_alnum c)) (\<lambda>_ _ _. []) hash)))"

definition generateImageFileName :: "runtime \<Rightarrow> ImageContext \<Rightarrow> jstring \<Rightarrow> jstring" where
  "generateImageFileName rt context extension =
     (let prefix =
        (case ctx_author context of
           None \<Rightarrow> js ''image''
         | Some author \<Rightarrow>
             if role author = js ''assistant'' then js ''chatgpt-response''
             else if role author = js ''user'' then js ''user-upload''
             else if role author = js ''tool''
               then (case name author of
                       None \<Rightarrow> js ''tool-result''
                     | Some n \<Rightarrow> if n = [] then js ''tool-result''
                                 else js ''tool-'' @ toLowerCase rt n)
             else role author);
          paddedIndex = padStart0 3 (dec (ctx_imageIndex context))
      in prefix @ js ''-'' @ paddedIndex @ js ''.'' @ extension)"

text \<open>\<open>base64.split(',')[1]\<close>.\<close>

definition payload :: "jstring \<Rightarrow> jstring option" where
  "payload base64 = nth_opt (split_on 44 base64) 1"

definition base64ToBlob :: "runtime \<Rightarrow> jstring \<Rightarrow> jstring \<Rightarrow> js_error + Blob" where
  "base64ToBlob rt base64 mimeType =
     (case atob rt (case payload base64 of None \<Rightarrow> js ''undefined'' | Some d \<Rightarrow> d) of
        None \<Rightarrow> Inl InvalidCharacterError
      | Some byteCharacters \<Rightarrow> Inr \<lparr>blob_bytes = byteCharacters, blob_type = mimeType\<rparr>)"

text \<open>\<open>Math.ceil((n * 3) / 4)\<close>; reading \<open>length\<close> of \<open>undefined\<close> throws.\<close>

definition getFileSizeFromBase64 :: "jstring \<Rightarrow> js_error + nat" where
  "getFileSizeFromBase64 base64 =
     (case payload base64 of
        None \<Rightarrow> Inl TypeError
      | Some base64Data \<Rightarrow> Inr ((length base64Data * 3 + 3) div 4))"

text \<open>The class \<^verbatim>\<open>[<>:"/\\|?*]\<close>, by code unit.\<close>

definition is_reserved :: "nat \<Rightarrow> bool" where
  "is_reserved c = (c \<in> set [60, 62, 58, 34, 47, 92, 124, 63, 42])"

definition sanitizeFileName :: "runtime \<Rightarrow> jstring \<Rightarrow> jstring" where
  "sanitizeFileName rt fileName =
     toLowerCase rt
       (replace_g (PlusG is_space) (\<lambda>_ _ _. js ''-'')
          (replace_g (Cls is_reserved) (\<lambda>_ _ _. js ''_'') fileName))"

definition createImageRelativePath :: "jstring \<Rightarrow> jstring" where
  "createImageRelativePath fileName = js ''images/'' @ fileName"

section \<open>The three strategies (image-strategies.ts)\<close>

definition failureMarker :: jstring where
  "failureMarker = js ''[Image Processing Failed]''"

text \<open>The object built in the catch block of a fetching strategy.\<close>

definition failedImage :: "jstring \<Rightarrow> jstring \<Rightarrow> jstring \<Rightarrow> ImageContext \<Rightarrow> ProcessedImage" where
  "failedImage ident imageUrl mimeType context =
     \<lparr>img_id = ident, img_content = failureMarker, img_originalData = None,
      img_metadata = Some \<lparr>im_originalUrl = imageUrl, im_mimeType = mimeType, im_fileSize = None,
                            im_timestamp = ctx_timestamp context, im_messageContext = None\<rparr>,
      img_fileName = None\<rparr>"

text \<open>\<open>context.author ? {author: name || role, role} : undefined\<close>.\<close>

definition messageContextOf :: "ImageContext \<Rightarrow> MessageContext option" where
  "messageContextOf context =
     (case ctx_author context of
        None \<Rightarrow> None
      | Some a \<Rightarrow>
          Some \<lparr>mc_author = (case name a of None \<Rightarrow> role a | Some n \<Rightarrow> if n = [] then role a else n),
                mc_role = role a\<rparr>)"

text \<open>
  Each \<open>processImage\<close> returns what its promise settles with: \<open>Inl\<close> when it
  rejects. \<open>generateImageId\<close> runs before the \<open>try\<close>, so its exception escapes; a
  failed fetch and the \<open>TypeError\<close> of \<open>getFileSizeFromBase64\<close> are caught inside.
\<close>

definition EmbedBase64_processImage ::
    "runtime \<Rightarrow> task_env \<Rightarrow> jstring \<Rightarrow> ImageContext \<Rightarrow> js_error + ProcessedImage" where
  "EmbedBase64_processImage rt te imageUrl context =
     (case generateImageId rt te context of
        Inl e \<Rightarrow> Inl e
      | Inr ident \<Rightarrow>
          (let mimeType = getMimeType rt imageUrl in
           case fetched te of
             None \<Rightarrow> Inr (failedImage ident imageUrl mimeType context)
           | Some base64Data \<Rightarrow>
               (let dataUri = js ''data:'' @ mimeType @ js '';base64,''
                      @ (case payload base64Data of None \<Rightarrow> js ''undefined'' | Some d \<Rightarrow> d)
                in case getFileSizeFromBase64 base64Data of
                     Inl _ \<Rightarrow> Inr (failedImage ident imageUrl mimeType context)
                   | Inr fileSize \<Rightarrow>
                       Inr \<lparr>img_id = ident, img_content = dataUri,
                            img_originalData = Some base64Data,
                            img_metadata = Some \<lparr>im_originalUrl = imageUrl, im_mimeType = mimeType,
                                                  im_fileSize = Some fileSize,
                                                  im_timestamp = ctx_timestamp context,
                                                  im_messageContext = None\<rparr>,
                            img_fileName = None\<rparr>)))"

definition getCustomMarkerText :: "runtime \<Rightarrow> jstring" where
  "getCustomMarkerText rt =
     (case customMarker rt of
        None \<Rightarrow> js ''[Image Omitted]''
      | Some m \<Rightarrow> if m = [] then js ''[Image Omitted]'' else m)"

definition TextMarker_processImage ::
    "runtime \<Rightarrow> task_env \<Rightarrow> jstring \<Rightarrow> ImageContext \<Rightarrow> js_error + ProcessedImage" where
  "TextMarker_processImage rt te imageUrl context =
     (case generateImageId rt te context of
        Inl e \<Rightarrow> Inl e
      | Inr ident \<Rightarrow>
          Inr \<lparr>img_id = ident, img_content = getCustomMarkerText rt, img_originalData = None,
               img_metadata = Some \<lparr>im_originalUrl = imageUrl, im_mimeType = getMimeType rt imageUrl,
                                     im_fileSize = None, im_timestamp = ctx_timestamp context,
                                     im_messageContext = messageContextOf context\<rparr>,
               img_fileName = None\<rparr>)"

definition SeparateFiles_processImage ::
    "runtime \<Rightarrow> task_env \<Rightarrow> jstring \<Rightarrow> ImageContext \<Rightarrow> js_error + ProcessedImage" where
  "SeparateFiles_processImage rt te imageUrl context =
     (case generateImageId rt te context of
        Inl e \<Rightarrow> Inl e
      | Inr ident \<Rightarrow>
          (let mimeType = getMimeType rt imageUrl in
           case fetched te of
             None \<Rightarrow> Inr (failedImage ident imageUrl mimeType context)
           | Some base64Data \<Rightarrow>
               (let extension = (case nth_opt (split_on 47 mimeType) 1 of
                                   None \<Rightarrow> js ''png''
                                 | Some e \<Rightarrow> if e = [] then js ''png'' else e);
                    fileName = sanitizeFileName rt (generateImageFileName rt context extension);
                    relativePath = createImageRelativePath fileName
                in case getFileSizeFromBase64 base64Data of
                     Inl _ \<Rightarrow> Inr (failedImage ident imageUrl mimeType context)
                   | Inr fileSize \<Rightarrow>
                       Inr \<lparr>img_id = ident, img_content = relativePath,
                            img_originalData = Some base64Data,
                            img_metadata = Some \<lparr>im_originalUrl = imageUrl, im_mimeType = mimeType,
                                                  im_fileSize = Some fileSize,
                                                  im_timestamp = ctx_timestamp context,
                                                  im_messageContext = messageContextOf context\<rparr>,
                            img_fileName = Some fileName\<rparr>)))"

text \<open>\<open>createImageProcessor(strategy).processImage\<close>.\<close>

fun processImage ::
    "ImageHandlingStrategy \<Rightarrow> runtime \<Rightarrow> task_env \<Rightarrow> jstring \<Rightarrow> ImageContext
       \<Rightarrow> js_error + ProcessedImage" where
  "processImage embed_base64 = EmbedBase64_processImage"
| "processImage text_marker = TextMarker_processImage"
| "processImage separate_files = SeparateFiles_processImage"

section \<open>The coordinator (image-handler.ts)\<close>

text \<open>
  One task of \<open>images.map(async ...)\<close>: the strategy's result, or the placeholder
  of the catch block when the strategy's promise rejects. The task itself never rejects.
\<close>

definition processOne ::
    "ImageHandlingStrategy \<Rightarrow> runtime \<Rightarrow> task_env \<Rightarrow> jstring \<times> ImageContext \<Rightarrow> ProcessedImage" where
  "processOne strategy rt te img =
     (case processImage strategy rt te (fst img) (snd img) of
        Inr processed \<Rightarrow> processed
      | Inl _ \<Rightarrow>
          \<lparr>img_id = errorId te, img_content = js ''[Image Processing Failed]'',
           img_originalData = None,
           img_metadata = Some \<lparr>im_originalUrl = fst img, im_mimeType = js ''image/png'',
                                 im_fileSize = None, im_timestamp = ctx_timestamp (snd img),
                                 im_messageContext = None\<rparr>,
           img_fileName = None\<rparr>)"

text \<open>
  \<open>Promise.all\<close>: every input promise has a slot at its own index; a promise that
  fulfils stores its value there, and the result is the slots, once all are filled.
  \<open>order\<close> lists the task indices in the order in which the tasks complete.
  \<open>tasks i\<close> is the value task \<open>i\<close> fulfils with. \<open>None\<close>: still pending.
\<close>

definition fulfil :: "(nat \<Rightarrow> 'a) \<Rightarrow> nat \<Rightarrow> 'a option list \<Rightarrow> 'a option list" where
  "fulfil tasks i slots = (if i < length slots then slots[i := Some (tasks i)] else slots)"

definition promise_all :: "nat \<Rightarrow> (nat \<Rightarrow> 'a) \<Rightarrow> nat list \<Rightarrow> 'a list option" where
  "promise_all n tasks order =
     (let slots = fold (fulfil tasks) order (replicate n None)
      in if list_all (\<lambda>v. v \<noteq> None) slots then Some (map the slots) else None)"

text \<open>What an awaited promise can do.\<close>

datatype 'a settled = Pending | Rejected js_error | Fulfilled 'a

record HandlerResult =
  res_content :: jstring
  res_files :: "ExportFile list option"
  res_metadata :: "ExportMetadata option"
  res_processedImages :: "ProcessedImage list"

text \<open>The \<open>forEach\<close> of \<open>generateContentFromImages\<close>; a throwing \<open>base64ToBlob\<close> ends it.\<close>

fun collectFiles :: "runtime \<Rightarrow> ProcessedImage list \<Rightarrow> js_error + ExportFile list" where
  "collectFiles rt [] = Inr []"
| "collectFiles rt (img # images) =
     (case (img_originalData img, img_fileName img, img_metadata img) of
        (Some originalData, Some fileName, Some metadata) \<Rightarrow>
          if originalData \<noteq> [] \<and> fileName \<noteq> []
          then (case base64ToBlob rt originalData (im_mimeType metadata) of
                  Inl e \<Rightarrow> Inl e
                | Inr blob \<Rightarrow>
                    (case collectFiles rt images of
                       Inl e \<Rightarrow> Inl e
                     | Inr files \<Rightarrow>
                         Inr (\<lparr>ef_path = img_content img, ef_data = blob,
                                ef_mimeType = im_mimeType metadata\<rparr> # files)))
          else collectFiles rt images
      | _ \<Rightarrow> collectFiles rt images)"

definition generateContentFromImages ::
    "ImageHandlingStrategy \<Rightarrow> runtime \<Rightarrow> ProcessedImage list
       \<Rightarrow> js_error + (jstring \<times> ExportFile list option)" where
  "generateContentFromImages currentStrategy rt processedImages =
     (if currentStrategy = separate_files
      then (case collectFiles rt processedImages of
              Inl e \<Rightarrow> Inl e
            | Inr files \<Rightarrow>
                Inr (js ''[CONTENT_PLACEHOLDER]'', if files = [] then None else Some files))
      else Inr (js ''[CONTENT_PLACEHOLDER]'', None))"

definition exportImageOf :: "ProcessedImage \<Rightarrow> ExportImage list" where
  "exportImageOf img =
     (case (img_metadata img, img_fileName img) of
        (Some metadata, Some fileName) \<Rightarrow>
          if fileName = [] then []
          else [\<lparr>ei_id = img_id img, ei_originalUrl = im_originalUrl metadata,
                  ei_fileName = fileName, ei_mimeType = im_mimeType metadata,
                  ei_size = (case im_fileSize metadata of None \<Rightarrow> 0 | Some n \<Rightarrow> n),
                  ei_messageContext =
                    (case im_messageContext metadata of
                       None \<Rightarrow> \<lparr>ec_messageId = Some [], ec_author = js ''unknown'',
                                  ec_role = js ''unknown''\<rparr>
                     | Some c \<Rightarrow> \<lparr>ec_messageId = None, ec_author = mc_author c,
                                    ec_role = mc_role c\<rparr>)\<rparr>]
      | _ \<Rightarrow> [])"

definition generateExportMetadata ::
    "ImageHandlingStrategy \<Rightarrow> runtime \<Rightarrow> ProcessedImage list \<Rightarrow> ExportMetadata" where
  "generateExportMetadata currentStrategy rt processedImages =
     \<lparr>em_version = js ''1.0.0'', em_exportDate = currentTimestamp rt,
      em_conversationTitle = js ''[CONVERSATION_TITLE]'',
      em_imageHandlingStrategy = currentStrategy,
      em_totalImages = length processedImages,
      em_images = concat (map exportImageOf processedImages),
      em_imageQuality = 85, em_maxImageSize = 2048, em_includeImageMetadata = True\<rparr>"

text \<open>
  \<open>processConversationImages\<close>. \<open>tenv i\<close> is what the task of image \<open>i\<close>
  observes, \<open>order\<close> the order in which the tasks complete.
\<close>

definition processConversationImages ::
    "ImageHandlingStrategy \<Rightarrow> runtime \<Rightarrow> (nat \<Rightarrow> task_env) \<Rightarrow> nat list
       \<Rightarrow> (jstring \<times> ImageContext) list \<Rightarrow> HandlerResult settled" where
  "processConversationImages currentStrategy rt tenv order images =
     (case promise_all (length images)
             (\<lambda>i. processOne currentStrategy rt (tenv i) (images ! i)) order of
        None \<Rightarrow> Pending
      | Some processedImages \<Rightarrow>
          (case generateContentFromImages currentStrategy rt processedImages of
             Inl e \<Rightarrow> Rejected e
           | Inr (content, files) \<Rightarrow>
               Fulfilled
                 \<lparr>res_content = content, res_files = files,
                  res_metadata =
                    (if currentStrategy = separate_files \<and> files \<noteq> None \<and> files \<noteq> Some []
                     then Some (generateExportMetadata currentStrategy rt processedImages)
                     else None),
                  res_processedImages = processedImages\<rparr>))"

section \<open>Conversations\<close>

text \<open>
  The conversation as \<open>processConversation\<close> hands it to the exporters. A part of
  a multimodal message is a string or an object with a \<open>content_type\<close>; the content
  of a message is the object the code reads: its \<open>content_type\<close> and the fields
  \<open>parts\<close>, \<open>text\<close> and \<open>title\<close>, each possibly absent. The metadata of a message is read through optional
  chaining only, so an absent object reads like one whose fields are all absent:
  \<open>aggregate_messages\<close> is \<open>metadata?.aggregate_result?.messages\<close>,
  \<open>metadata_list\<close> is \<open>metadata?._cite_metadata?.metadata_list\<close>,
  \<open>cited_message_idx\<close> is \<open>cite.metadata?.extra?.cited_message_idx\<close> and
  \<open>cite_title\<close> is \<open>citation.metadata?.title\<close>. Numbers are whole and exact.
\<close>

datatype Part =
    StringPart jstring
  | ObjectPart (part_content_type: jstring) (part_asset_pointer: "jstring option")
      (part_text: "jstring option")

record Content =
  content_type :: jstring
  c_parts :: "Part list option"
  c_text :: "jstring option"
  c_title :: "jstring option"

record AggregateMessage =
  message_type :: jstring
  am_image_url :: "jstring option"

text \<open>
  A citation, with \<open>metadata.extra.cited_message_idx\<close> and \<open>metadata.title\<close>. The index
  is compared with the Number of a string of digits only, so \<open>None\<close> also stands for a
  value that no such string denotes: a negative number or one with a fraction.
\<close>

record Citation =
  cited_message_idx :: "number option"
  cite_title :: "jstring option"

record CiteMetadata =
  cm_title :: jstring
  cm_url :: jstring

record Metadata =
  aggregate_messages :: "AggregateMessage list option"
  citations :: "Citation list option"
  metadata_list :: "CiteMetadata list option"

record Message =
  msg_id :: jstring
  msg_author :: Author
  msg_content :: "Content option"
  msg_metadata :: Metadata
  msg_recipient :: jstring
  msg_create_time :: "nat option"

type_synonym ConversationNode = "Message option"

record Conversation =
  conv_id :: jstring
  conv_title :: jstring
  conversationNodes :: "ConversationNode list"

section \<open>Image extraction (markdown.ts and html.ts)\<close>

text \<open>The \<open>ImageContext\<close> that both extractors build for the image they push.\<close>

definition imageContext ::
    "Conversation \<Rightarrow> Message \<Rightarrow> nat \<Rightarrow> ImageContentType \<Rightarrow> nat \<Rightarrow> jstring \<Rightarrow> jstring \<times> ImageContext" where
  "imageContext conversation message nodeIndex contentType imageIndex url =
     (url,
      \<lparr>ctx_conversationId = conv_id conversation,
       ctx_messageId = (if msg_id message = [] then js ''node-'' @ dec nodeIndex else msg_id message),
       ctx_imageIndex = imageIndex,
       ctx_mimeType = js ''image/png'',
       ctx_originalUrl = url,
       ctx_contentType = contentType,
       ctx_author = Some (msg_author message),
       ctx_timestamp = msg_create_time message\<rparr>)"

text \<open>
  The locators that one \<open>forEach\<close> accepts, numbered by \<open>imageIndex++\<close> in the order
  in which they are pushed.
\<close>

definition numbered ::
    "Conversation \<Rightarrow> Message \<Rightarrow> nat \<Rightarrow> ImageContentType \<Rightarrow> jstring list
       \<Rightarrow> (jstring \<times> ImageContext) list" where
  "numbered conversation message nodeIndex contentType urls =
     map (\<lambda>(imageIndex, url). imageContext conversation message nodeIndex contentType imageIndex url)
       (enumerate 0 urls)"

text \<open>\<open>msg.message_type === 'image' && msg.image_url\<close>.\<close>

definition aggregateImageUrl :: "AggregateMessage \<Rightarrow> jstring list" where
  "aggregateImageUrl msg =
     (if message_type msg = js ''image''
      then (case am_image_url msg of None \<Rightarrow> [] | Some u \<Rightarrow> if u = [] then [] else [u])
      else [])"

text \<open>Markdown: \<open>part.content_type === 'image_asset_pointer' && part.asset_pointer\<close>.\<close>

fun assetPointer_md :: "Part \<Rightarrow> jstring list" where
  "assetPointer_md (StringPart _) = []"
| "assetPointer_md (ObjectPart t pointer _) =
     (if t = js ''image_asset_pointer''
      then (case pointer of None \<Rightarrow> [] | Some u \<Rightarrow> if u = [] then [] else [u])
      else [])"

text \<open>
  HTML: \<open>typeof part === 'object' && 'content_type' in part && 'asset_pointer' in part
  && part.content_type === 'image_asset_pointer'\<close>.
\<close>

fun assetPointer_html :: "Part \<Rightarrow> jstring list" where
  "assetPointer_html (StringPart _) = []"
| "assetPointer_html (ObjectPart t pointer _) =
     (case pointer of
        None \<Rightarrow> []
      | Some u \<Rightarrow> if t = js ''image_asset_pointer'' then [u] else [])"

definition extractFromNode ::
    "(Part \<Rightarrow> jstring list) \<Rightarrow> Conversation \<Rightarrow> nat \<times> ConversationNode
       \<Rightarrow> (jstring \<times> ImageContext) list" where
  "extractFromNode assetPointer conversation indexed =
     (case snd indexed of
        None \<Rightarrow> []
      | Some message \<Rightarrow>
          (case msg_content message of
             None \<Rightarrow> []
           | Some content \<Rightarrow>
               if content_type content = js ''execution_output''
                  \<and> aggregate_messages (msg_metadata message) \<noteq> None
               then numbered conversation message (fst indexed) image_url
                      (concat (map aggregateImageUrl
                         (the (aggregate_messages (msg_metadata message)))))
               else if content_type content = js ''multimodal_text'' \<and> c_parts content \<noteq> None
               then numbered conversation message (fst indexed) multimodal_text
                      (concat (map assetPointer (the (c_parts content))))
               else []))"

definition extractImagesFromConversation_md :: "Conversation \<Rightarrow> (jstring \<times> ImageContext) list" where
  "extractImagesFromConversation_md conversation =
     concat (map (extractFromNode assetPointer_md conversation)
               (enumerate 0 (conversationNodes conversation)))"

definition extractImagesFromConversation_html :: "Conversation \<Rightarrow> (jstring \<times> ImageContext) list" where
  "extractImagesFromConversation_html conversation =
     concat (map (extractFromNode assetPointer_html conversation)
               (enumerate 0 (conversationNodes conversation)))"

section \<open>Counting and the rendering loop\<close>

fun isImagePart :: "Part \<Rightarrow> bool" where
  "isImagePart (StringPart _) = False"
| "isImagePart (ObjectPart t _ _) = (t = js ''image_asset_pointer'')"

definition countImagesInMessage :: "Message \<Rightarrow> nat" where
  "countImagesInMessage message =
     (case msg_content message of
        None \<Rightarrow> 0
      | Some content \<Rightarrow>
          if content_type content = js ''execution_output''
             \<and> aggregate_messages (msg_metadata message) \<noteq> None
          then length (filter (\<lambda>msg. message_type msg = js ''image'')
                         (the (aggregate_messages (msg_metadata message))))
          else if content_type content = js ''multimodal_text'' \<and> c_parts content \<noteq> None
          then length (filter isImagePart (the (c_parts content)))
          else 0)"

text \<open>
  The guards at the head of the loop body of \<open>conversationToMarkdown\<close> and
  \<open>conversationToHtml\<close>: \<open>True\<close> when the message reaches \<open>transformContent\<close>.
\<close>

definition isRendered :: "Message \<Rightarrow> bool" where
  "isRendered message =
     (case msg_content message of
        None \<Rightarrow> False
      | Some content \<Rightarrow>
          if msg_recipient message \<noteq> js ''all'' then False
          else if role (msg_author message) = js ''tool''
                  \<and> content_type content \<noteq> js ''multimodal_text''
                  \<and> \<not> (content_type content = js ''execution_output''
                        \<and> (case aggregate_messages (msg_metadata message) of
                              None \<Rightarrow> False
                            | Some msgs \<Rightarrow> list_ex (\<lambda>msg. message_type msg = js ''image'') msgs))
               then False
          else True)"

text \<open>
  The loop over the nodes with its running \<open>imageIndex\<close>: the rendered messages in
  order, each with the \<open>imageStartIndex\<close> that \<open>transformContent\<close> gets for it.
\<close>

fun renderLoop :: "ConversationNode list \<Rightarrow> nat \<Rightarrow> (nat \<times> Message) list" where
  "renderLoop [] imageIndex = []"
| "renderLoop (None # nodes) imageIndex = renderLoop nodes imageIndex"
| "renderLoop (Some message # nodes) imageIndex =
     (if isRendered message
      then (imageIndex, message) # renderLoop nodes (imageIndex + countImagesInMessage message)
      else renderLoop nodes imageIndex)"

section \<open>Rendering one message (transformContent)\<close>

datatype Format = Markdown | Html

definition nl :: jstring where
  "nl = [10]"

text \<open>A field read inside a template literal: \<open>undefined\<close> prints as that word.\<close>

definition shown :: "jstring option \<Rightarrow> jstring" where
  "shown v = (case v of None \<Rightarrow> js ''undefined'' | Some t \<Rightarrow> t)"

text \<open>
  The reference to the processed image at a global index, or the positional
  placeholder when there is none or its content is empty. The two renderers differ in
  the syntax of the reference only.
\<close>

definition imageRef :: "Format \<Rightarrow> ProcessedImage list \<Rightarrow> nat \<Rightarrow> jstring" where
  "imageRef fmt processedImages globalIndex =
     (case nth_opt processedImages globalIndex of
        None \<Rightarrow> js ''[IMAGE_'' @ dec globalIndex @ js '']''
      | Some processedImage \<Rightarrow>
          if img_content processedImage = [] then js ''[IMAGE_'' @ dec globalIndex @ js '']''
          else (case fmt of
                  Markdown \<Rightarrow> js ''![image]('' @ img_content processedImage @ js '')''
                | Html \<Rightarrow> js ''<img src='' @ [34] @ img_content processedImage @ [34] @ js '' />''))"

text \<open>An element of \<open>parts\<close> as \<open>Array.prototype.join\<close> prints it.\<close>

fun partString :: "Part \<Rightarrow> jstring" where
  "partString (StringPart t) = t"
| "partString (ObjectPart _ _ _) = js ''[object Object]''"

text \<open>One part of a multimodal message: \<open>None\<close> is the \<open>null\<close> that is filtered out.\<close>

fun transformPart ::
    "Format \<Rightarrow> (jstring \<Rightarrow> jstring) \<Rightarrow> ProcessedImage list \<Rightarrow> nat \<Rightarrow> Part list
       \<Rightarrow> nat \<times> Part \<Rightarrow> jstring option" where
  "transformPart fmt postProcess processedImages imageStartIndex parts (partIndex, StringPart t) =
     Some (postProcess t)"
| "transformPart fmt postProcess processedImages imageStartIndex parts (partIndex, ObjectPart t pointer txt) =
     (if t = js ''image_asset_pointer''
      then Some (imageRef fmt processedImages
                   (imageStartIndex + length (filter isImagePart (take partIndex parts))))
      else if t = js ''audio_transcription''
      then Some (case fmt of
                   Markdown \<Rightarrow> js ''[audio] '' @ shown txt
                 | Html \<Rightarrow> js ''<div style='' @ [34] @ js ''font-style: italic; opacity: 0.65;''
                            @ [34] @ js ''>'' @ [34] @ shown txt @ [34] @ js ''</div>'')
      else if t = js ''audio_asset_pointer'' then None
      else if t = js ''real_time_user_audio_video_asset_pointer'' then None
      else Some (postProcess (js ''[Unsupported multimodal content]'')))"

definition transformContent ::
    "Format \<Rightarrow> Content \<Rightarrow> Metadata \<Rightarrow> (jstring \<Rightarrow> jstring) \<Rightarrow> ProcessedImage list \<Rightarrow> nat
       \<Rightarrow> jstring" where
  "transformContent fmt content metadata postProcess processedImages imageStartIndex =
     (if content_type content = js ''text''
      then postProcess (case c_parts content of
                          None \<Rightarrow> []
                        | Some parts \<Rightarrow> join nl (map partString parts))
      else if content_type content = js ''code''
      then js ''Code:'' @ nl @ js ''```'' @ nl @ shown (c_text content) @ nl @ js ''```''
      else if content_type content = js ''execution_output''
      then (let result = js ''Result:'' @ nl @ js ''```'' @ nl @ shown (c_text content) @ nl @ js ''```'';
                imageMessages = filter (\<lambda>msg. message_type msg = js ''image'')
                                  (case aggregate_messages metadata of None \<Rightarrow> [] | Some msgs \<Rightarrow> msgs)
            in if imageMessages \<noteq> []
               then (let imageContent =
                           join (nl @ nl)
                             (map (\<lambda>index. imageRef fmt processedImages (imageStartIndex + index))
                                [0..<length imageMessages])
                     in postProcess (result @ (if imageContent = [] then [] else nl @ nl @ imageContent)))
               else postProcess result)
      else if content_type content = js ''tether_quote''
      then postProcess (js ''> '' @ (case c_title content of
                                       Some t \<Rightarrow> if t \<noteq> [] then t
                                                 else (case c_text content of None \<Rightarrow> [] | Some x \<Rightarrow> x)
                                     | None \<Rightarrow> (case c_text content of None \<Rightarrow> [] | Some x \<Rightarrow> x)))
      else if content_type content = js ''tether_browsing_code''
      then postProcess []
      else if content_type content = js ''tether_browsing_display''
      then (case metadata_list metadata of
              None \<Rightarrow> postProcess []
            | Some metadataList \<Rightarrow>
                if metadataList = [] then postProcess []
                else postProcess
                       (join nl (map (\<lambda>m. js ''> ['' @ cm_title m @ js ''](''  @ cm_url m @ js '')'')
                                   metadataList)))
      else if content_type content = js ''multimodal_text''
      then (case c_parts content of
              None \<Rightarrow> []
            | Some parts \<Rightarrow>
                join nl (concat (map (\<lambda>p. case transformPart fmt postProcess processedImages
                                                  imageStartIndex parts p of
                                             None \<Rightarrow> [] | Some t \<Rightarrow> [t])
                                   (enumerate 0 parts))))
      else (case fmt of
              Markdown \<Rightarrow> postProcess (js ''[Unsupported Content]'')
            | Html \<Rightarrow> postProcess (js ''[Unsupported Content: '' @ content_type content @ js '' ]'')))"

section \<open>Footnotes (transformFootNotes)\<close>

text \<open>The dot of a regular expression: anything but a line terminator.\<close>

definition dot :: "nat \<Rightarrow> bool" where
  "dot c = (\<not> is_line_terminator c)"

text \<open>
  \<open>footNoteMarkRegex\<close>: U+3010, digits, U+2020, an opening parenthesis, a lazy
  non-empty label, a closing parenthesis, U+3011.
\<close>

definition footNoteMarkRegex :: rx where
  "footNoteMarkRegex =
     Seq (Lit 12304) (Seq (Grp (PlusG is_digit)) (Seq (Lit 8224) (Seq (Lit 40)
       (Seq (Grp (PlusL dot)) (Seq (Lit 41) (Lit 12305))))))"

text \<open>\<open>metadata?.citations?.find(cite => cite.metadata?.extra?.cited_message_idx === +citeIndex)\<close>.\<close>

definition findCitation :: "Metadata \<Rightarrow> jstring \<Rightarrow> Citation option" where
  "findCitation metadata citeIndex =
     (case citations metadata of
        None \<Rightarrow> None
      | Some cites \<Rightarrow> find (\<lambda>cite. cited_message_idx cite = Some (toNumber citeIndex)) cites)"

text \<open>The citations that the callback pushes, in the order of the marks.\<close>

fun citedBy :: "Metadata \<Rightarrow> tok list \<Rightarrow> Citation list" where
  "citedBy metadata [] = []"
| "citedBy metadata (C _ # ts) = citedBy metadata ts"
| "citedBy metadata (M m g # ts) =
     (case findCitation metadata (hd g) of
        None \<Rightarrow> citedBy metadata ts
      | Some citation \<Rightarrow> citation # citedBy metadata ts)"

definition footNoteLine :: "Citation \<Rightarrow> jstring" where
  "footNoteLine citation =
     js ''[^''
       @ numberToString (case cited_message_idx citation of None \<Rightarrow> Finite 1 | Some k \<Rightarrow> k)
       @ js '']: ''
       @ (case cite_title citation of None \<Rightarrow> js ''No title'' | Some t \<Rightarrow> t)"

text \<open>
  \<open>transformFootNotes\<close> of the Markdown exporter: its \<open>output\<close>, its
  \<open>citationList\<close>, and the text it returns.
\<close>

definition footNoteOutput :: "Metadata \<Rightarrow> jstring \<Rightarrow> jstring" where
  "footNoteOutput metadata input =
     replace_g footNoteMarkRegex
       (\<lambda>_ match g. case findCitation metadata (hd g) of
                      None \<Rightarrow> match
                    | Some _ \<Rightarrow> js ''[^'' @ hd g @ js '']'') input"

definition footNoteCitations :: "Metadata \<Rightarrow> jstring \<Rightarrow> Citation list" where
  "footNoteCitations metadata input = citedBy metadata (scan footNoteMarkRegex [] input)"

definition transformFootNotes_md :: "Metadata \<Rightarrow> jstring \<Rightarrow> jstring" where
  "transformFootNotes_md metadata input =
     (let output = footNoteOutput metadata input;
          citationList = footNoteCitations metadata input;
          citationText = join nl (map footNoteLine citationList)
      in output @ nl @ nl @ citationText)"

definition transformFootNotes_html :: "Metadata \<Rightarrow> jstring \<Rightarrow> jstring" where
  "transformFootNotes_html metadata input =
     replace_g footNoteMarkRegex
       (\<lambda>_ match g. case findCitation metadata (hd g) of None \<Rightarrow> match | Some _ \<Rightarrow> []) input"

section \<open>The math-safe round trip of assistant text\<close>

text \<open>
  \<open>LatexRegex\<close> of the Markdown exporter (flags \<open>gm\<close>). Its callback ignores the
  captures, so the three groups are written without them. \<open>any\<close> is
  \<^verbatim>\<open>[\S\s]\<close>.
\<close>

definition any :: "nat \<Rightarrow> bool" where
  "any c = True"

definition LatexRegex_md :: rx where
  "LatexRegex_md =
     Alt (Alt (Seq (Cls is_space) (Seq (Lit 36) (Seq (Lit 36) (Seq (PlusG dot)
                 (Seq (Lit 36) (Seq (Lit 36) (Cls is_space)))))))
         (Alt (Seq (Cls is_space) (Seq (Lit 36) (Seq (PlusG dot) (Seq (Lit 36) (Cls is_space)))))
         (Alt (Seq (Lit 92) (Seq (Lit 91) (Seq (PlusG dot) (Seq (Lit 92) (Lit 93)))))
              (Seq (Lit 92) (Seq (Lit 40) (Seq (PlusG dot) (Seq (Lit 92) (Lit 41))))))))
    (Alt (Seq Bol (Seq (Lit 36) (Seq Eol (Seq (PlusG any) (Seq Bol (Seq (Lit 36) Eol))))))
         (Seq Bol (Seq (Lit 36) (Seq (Lit 36) (Seq (PlusG any)
            (Seq Bol (Seq (Lit 36) (Seq (Lit 36) Eol))))))))"

text \<open>
  \<open>LatexRegex\<close> of the HTML exporter: lazy quantifiers, and three dollar signs and
  no end anchor at the end of the last alternative.
\<close>

definition LatexRegex_html :: rx where
  "LatexRegex_html =
     Alt (Alt (Seq (Cls is_space) (Seq (Lit 36) (Seq (Lit 36) (Seq (PlusL dot)
                 (Seq (Lit 36) (Seq (Lit 36) (Cls is_space)))))))
         (Alt (Seq (Cls is_space) (Seq (Lit 36) (Seq (PlusL dot) (Seq (Lit 36) (Cls is_space)))))
         (Alt (Seq (Lit 92) (Seq (Lit 91) (Seq (PlusL dot) (Seq (Lit 92) (Lit 93)))))
              (Seq (Lit 92) (Seq (Lit 40) (Seq (PlusL dot) (Seq (Lit 92) (Lit 41))))))))
    (Alt (Seq Bol (Seq (Lit 36) (Seq Eol (Seq (PlusL any) (Seq Bol (Seq (Lit 36) Eol))))))
         (Seq Bol (Seq (Lit 36) (Seq (Lit 36) (Seq (PlusL any)
            (Seq Bol (Seq (Lit 36) (Seq (Lit 36) (Lit 36)))))))))"

text \<open>
  The five replacements that turn bracket delimiters into dollar signs. In a
  replacement string \<open>$$\<close> is one dollar sign and \<open>$1\<close> the first capture.
\<close>

definition displayMathRegex :: rx where
  "displayMathRegex =
     Seq Bol (Seq (Lit 92) (Seq (Lit 91) (Seq (Grp (PlusG dot)) (Seq (Lit 92) (Seq (Lit 93) Eol)))))"

definition normalizeMath :: "jstring \<Rightarrow> jstring" where
  "normalizeMath input =
     replace_g (Seq (Lit 92) (Lit 41)) (\<lambda>_ _ _. js ''$'')
       (replace_g (Seq (Lit 92) (Lit 40)) (\<lambda>_ _ _. js ''$'')
          (replace_g (Seq (Lit 92) (Lit 93)) (\<lambda>_ _ _. js ''$'')
             (replace_g (Seq (Lit 92) (Lit 91)) (\<lambda>_ _ _. js ''$'')
                (replace_g displayMathRegex (\<lambda>_ _ g. js ''$$'' @ hd g @ js ''$$'') input))))"

text \<open>The test for a fenced code block: three backticks anywhere.\<close>

definition codeFenceRegex :: rx where
  "codeFenceRegex = Seq (Lit 96) (Seq (Lit 96) (Lit 96))"

text \<open>The sentinel of the match with ordinal \<open>index\<close>: U+256C, the ordinal, U+256C.\<close>

definition sentinel :: "nat \<Rightarrow> jstring" where
  "sentinel index = [9580] @ dec index @ [9580]"

definition sentinelRegex :: rx where
  "sentinelRegex = Seq (Lit 9580) (Seq (Grp (PlusG is_digit)) (Lit 9580))"

text \<open>
  Putting the spans back: \<open>matches[+index]\<close>, and the word \<open>undefined\<close> when the
  callback returns \<open>undefined\<close>.
\<close>

definition restoreMath :: "jstring list \<Rightarrow> jstring \<Rightarrow> jstring" where
  "restoreMath matches transformed =
     replace_g sentinelRegex
       (\<lambda>_ _ g. case toNumber (hd g) of
                  Infinity \<Rightarrow> js ''undefined''
                | Finite index \<Rightarrow>
                    (case nth_opt matches index of
                       None \<Rightarrow> js ''undefined''
                     | Some span \<Rightarrow> span)) transformed"

text \<open>
  The second post-processing step of an assistant message. \<open>roundTrip\<close> is
  \<open>toMarkdown(fromMarkdown(.))\<close> for Markdown and \<open>toHtml(fromMarkdown(.))\<close> for
  HTML; both come from a library outside the sources and are parameters here.
\<close>

definition mathStep_md :: "(jstring \<Rightarrow> jstring) \<Rightarrow> jstring \<Rightarrow> jstring" where
  "mathStep_md roundTrip input0 =
     (let input = normalizeMath input0;
          matches = match_g LatexRegex_md input;
          isCodeBlock = test codeFenceRegex input;
          protected = (if \<not> isCodeBlock \<and> matches \<noteq> []
                       then replace_g LatexRegex_md (\<lambda>index _ _. sentinel index) input
                       else input);
          transformed = roundTrip protected
      in if \<not> isCodeBlock \<and> matches \<noteq> [] then restoreMath matches transformed
         else transformed)"

definition mathStep_html :: "(jstring \<Rightarrow> jstring) \<Rightarrow> jstring \<Rightarrow> jstring" where
  "mathStep_html roundTrip input =
     (let matches = match_g LatexRegex_html input;
          isCodeBlock = test codeFenceRegex input;
          protected = (if \<not> isCodeBlock \<and> matches \<noteq> []
                       then normalizeMath
                              (replace_g LatexRegex_html (\<lambda>index _ _. sentinel index) input)
                       else input);
          transformed = roundTrip protected
      in if \<not> isCodeBlock \<and> matches \<noteq> [] then restoreMath matches transformed
         else transformed)"

text \<open>\<open>escapeHtml\<close>: five replacements, the ampersand first.\<close>

definition escapeHtml :: "jstring \<Rightarrow> jstring" where
  "escapeHtml html =
     replace_g (Lit 39) (\<lambda>_ _ _. js ''&#039;'')
       (replace_g (Lit 34) (\<lambda>_ _ _. js ''&quot;'')
          (replace_g (Lit 62) (\<lambda>_ _ _. js ''&gt;'')
             (replace_g (Lit 60) (\<lambda>_ _ _. js ''&lt;'')
                (replace_g (Lit 38) (\<lambda>_ _ _. js ''&amp;'') html))))"

text \<open>\<open>postProcess\<close>: the steps pushed for the message, applied from left to right.\<close>

definition postSteps :: "Format \<Rightarrow> (jstring \<Rightarrow> jstring) \<Rightarrow> Message \<Rightarrow> (jstring \<Rightarrow> jstring) list" where
  "postSteps fmt roundTrip message =
     (case fmt of
        Markdown \<Rightarrow>
          (if role (msg_author message) = js ''assistant''
           then [transformFootNotes_md (msg_metadata message), mathStep_md roundTrip]
           else [])
      | Html \<Rightarrow>
          (if role (msg_author message) = js ''assistant''
           then [transformFootNotes_html (msg_metadata message), mathStep_html roundTrip]
           else [])
          @ (if role (msg_author message) = js ''user''
             then [\<lambda>input. js ''<p class='' @ [34] @ js ''no-katex'' @ [34] @ js ''>''
                            @ escapeHtml input @ js ''</p>'']
             else []))"

definition postProcess :: "Format \<Rightarrow> (jstring \<Rightarrow> jstring) \<Rightarrow> Message \<Rightarrow> jstring \<Rightarrow> jstring" where
  "postProcess fmt roundTrip message input =
     foldl (\<lambda>acc fn. fn acc) input (postSteps fmt roundTrip message)"

section \<open>Assembling the document\<close>


text \<open>The fragment of one rendered message, given its \<open>imageStartIndex\<close>.\<close>

definition messageContent ::
    "Format \<Rightarrow> (jstring \<Rightarrow> jstring) \<Rightarrow> ProcessedImage list \<Rightarrow> nat \<times> Message \<Rightarrow> jstring" where
  "messageContent fmt roundTrip processedImages entry =
     transformContent fmt (the (msg_content (snd entry))) (msg_metadata (snd entry))
       (postProcess fmt roundTrip (snd entry)) processedImages (fst entry)"



section \<open>File names of a batch export\<close>

text \<open>
  The loop of \<open>exportAllToMarkdown\<close> and \<open>exportAllToHtml\<close> over the file names that
  \<open>getFileNameWithFormat\<close> computed, with its \<open>filenameMap\<close>: the names under which
  the documents are stored. \<open>dropped\<close> is the number of code units that \<open>slice\<close>
  cuts off and \<open>ext\<close> the extension that is put back; \<open>numberedName\<close> is the
  template literal that inserts the counter.
\<close>

definition numberedName :: "nat \<Rightarrow> jstring \<Rightarrow> jstring \<Rightarrow> nat \<Rightarrow> jstring" where
  "numberedName dropped ext fileName count =
     take (length fileName - dropped) fileName @ js '' ('' @ dec count @ js '')'' @ ext"

fun dedupFileNames :: "nat \<Rightarrow> jstring \<Rightarrow> (jstring \<rightharpoonup> nat) \<Rightarrow> jstring list \<Rightarrow> jstring list" where
  "dedupFileNames dropped ext filenameMap [] = []"
| "dedupFileNames dropped ext filenameMap (fileName # rest) =
     (case filenameMap fileName of
        Some count \<Rightarrow>
          numberedName dropped ext fileName count
            # dedupFileNames dropped ext (filenameMap(fileName \<mapsto> count + 1)) rest
      | None \<Rightarrow> fileName # dedupFileNames dropped ext (filenameMap(fileName \<mapsto> 1)) rest)"

definition exportAllToMarkdown :: "jstring list \<Rightarrow> jstring list" where
  "exportAllToMarkdown fileNames = dedupFileNames 3 (js ''.md'') Map.empty fileNames"

definition exportAllToHtml :: "jstring list \<Rightarrow> jstring list" where
  "exportAllToHtml fileNames = dedupFileNames 5 (js ''.html'') Map.empty fileNames"

section \<open>Shapes of input text\<close>

text \<open>
  A citation mark with the index written \<open>digits\<close> and the label \<open>label\<close>, as the
  assistant's text carries it: U+3010, the index, U+2020, the label in parentheses,
  U+3011.
\<close>

definition footNoteMark :: "jstring \<Rightarrow> jstring \<Rightarrow> jstring" where
  "footNoteMark digits label = [12304] @ digits @ [8224, 40] @ label @ [41, 12305]"

text \<open>
  Prose and spans in turn: \<open>weave [g0, g1, g2] [m0, m1]\<close> is
  \<open>g0 @ m0 @ g1 @ m1 @ g2\<close>.
\<close>

fun weave :: "jstring list \<Rightarrow> jstring list \<Rightarrow> jstring" where
  "weave [] ms = []"
| "weave (g # gs) [] = g"
| "weave (g # gs) (m # ms) = g @ m @ weave gs ms"

text \<open>An expression that looks at the text before the position.\<close>

fun anchored :: "rx \<Rightarrow> bool" where
  "anchored Bol = True"
| "anchored (Seq a b) = (anchored a \<or> anchored b)"
| "anchored (Alt a b) = (anchored a \<or> anchored b)"
| "anchored (Grp a) = anchored a"
| "anchored _ = False"

section \<open>Example inputs\<close>

text \<open>
  A runtime whose \<open>btoa\<close> and \<open>atob\<close> never throw and whose \<open>toLowerCase\<close>
  lowers the ASCII letters, and a network on which the fetch of the image with index 1
  fails and every other fetch yields a small PNG data URL.
\<close>

definition exampleRuntime :: runtime where
  "exampleRuntime =
     \<lparr>btoa = Some, atob = Some,
      toLowerCase = map (\<lambda>c. if 65 \<le> c \<and> c \<le> 90 then c + 32 else c),
      customMarker = None, currentTimestamp = js ''2024-01-01T00:00:00.000Z''\<rparr>"

definition exampleEnv :: "nat \<Rightarrow> task_env" where
  "exampleEnv i =
     \<lparr>fetched = (if i = 1 then None else Some (js ''data:image/png;base64,iVBORw0KGgo='')),
      now = 1700, errorId = js ''error-1700-k3j2h1g0f''\<rparr>"

definition exampleContext :: "jstring \<Rightarrow> jstring \<Rightarrow> nat \<Rightarrow> jstring \<Rightarrow> jstring \<times> ImageContext" where
  "exampleContext r messageId imageIndex url =
     (url,
      \<lparr>ctx_conversationId = js ''conv-1'', ctx_messageId = messageId, ctx_imageIndex = imageIndex,
       ctx_mimeType = js ''image/png'', ctx_originalUrl = url, ctx_contentType = multimodal_text,
       ctx_author = Some \<lparr>role = r, name = None\<rparr>, ctx_timestamp = Some 17\<rparr>)"

definition exampleImages :: "(jstring \<times> ImageContext) list" where
  "exampleImages =
     [exampleContext (js ''user'') (js ''m1'') 0 (js ''https://files.example/a.png''),
      exampleContext (js ''user'') (js ''m1'') 1 (js ''https://files.example/b.jpg''),
      exampleContext (js ''tool'') (js ''m2'') 0 (js ''https://files.example/c.png'')]"

text \<open>
  Two user messages, each with one uploaded image; and a network on which every
  fetch succeeds.
\<close>

definition emptyMetadata :: Metadata where
  "emptyMetadata = \<lparr>aggregate_messages = None, citations = None, metadata_list = None\<rparr>"

definition imageMessage :: "jstring \<Rightarrow> jstring \<Rightarrow> jstring \<Rightarrow> jstring \<Rightarrow> Message" where
  "imageMessage ident r recipient pointer =
     \<lparr>msg_id = ident, msg_author = \<lparr>role = r, name = None\<rparr>,
      msg_content = Some \<lparr>content_type = js ''multimodal_text'',
                          c_parts = Some [ObjectPart (js ''image_asset_pointer'') (Some pointer) None],
                          c_text = None, c_title = None\<rparr>,
      msg_metadata = emptyMetadata, msg_recipient = recipient, msg_create_time = Some 17\<rparr>"

definition collidingConversation :: Conversation where
  "collidingConversation =
     \<lparr>conv_id = js ''conv-1'', conv_title = js ''Two uploads'',
      conversationNodes =
        [Some (imageMessage (js ''msg-a'') (js ''user'') (js ''all'') (js ''https://files.example/first.png'')),
         Some (imageMessage (js ''msg-b'') (js ''user'') (js ''all'') (js ''https://files.example/second.png''))]\<rparr>"

definition okEnv :: "nat \<Rightarrow> task_env" where
  "okEnv i = \<lparr>fetched = Some (js ''data:image/png;base64,iVBORw0KGgo=''), now = 1700,
              errorId = js ''error-1700-k3j2h1g0f''\<rparr>"

text \<open>The images of that conversation, and what the file strategy makes of them.\<close>

definition collidingImages :: "(jstring \<times> ImageContext) list" where
  "collidingImages = extractImagesFromConversation_md collidingConversation"

definition collidingProcessed :: "ProcessedImage list" where
  "collidingProcessed =
     map (\<lambda>i. processOne separate_files exampleRuntime (okEnv i) (collidingImages ! i)) [0, 1]"

text \<open>
  A conversation whose first message carries an image but is addressed to the
  assistant, not to \<open>all\<close>, followed by a user message with an image.
\<close>

definition driftConversation :: Conversation where
  "driftConversation =
     \<lparr>conv_id = js ''conv-2'', conv_title = js ''Drift'',
      conversationNodes =
        [Some (imageMessage (js ''msg-t'') (js ''tool'') (js ''assistant'') (js ''file-service://hidden'')),
         Some (imageMessage (js ''msg-u'') (js ''user'') (js ''all'') (js ''file-service://shown''))]\<rparr>"

text \<open>A user message whose image part has an empty \<open>asset_pointer\<close>.\<close>

definition emptyPointerConversation :: Conversation where
  "emptyPointerConversation =
     \<lparr>conv_id = js ''conv-3'', conv_title = js ''Empty pointer'',
      conversationNodes = [Some (imageMessage (js ''msg-e'') (js ''user'') (js ''all'') [])]\<rparr>"

text \<open>A quotation and a piece of code, as contents.\<close>

definition exampleQuote :: Content where
  "exampleQuote = \<lparr>content_type = js ''tether_quote'', c_parts = None,
                    c_text = Some (js ''quoted text''), c_title = Some (js ''A title'')\<rparr>"

definition exampleCode :: Content where
  "exampleCode = \<lparr>content_type = js ''code'', c_parts = None,
                   c_text = Some (js ''print(1)''), c_title = None\<rparr>"

text \<open>Metadata with one citation, of message 3.\<close>

definition exampleCitation :: Citation where
  "exampleCitation = \<lparr>cited_message_idx = Some (Finite 3), cite_title = Some (js ''SourceName'')\<rparr>"

definition citedMetadata :: Metadata where
  "citedMetadata = \<lparr>aggregate_messages = None, citations = Some [exampleCitation],
                     metadata_list = None\<rparr>"

text \<open>A message part of each kind: text, image, audio transcript.\<close>

definition exampleMultimodal :: Content where
  "exampleMultimodal =
     \<lparr>content_type = js ''multimodal_text'',
      c_parts = Some [StringPart (js ''look''),
                      ObjectPart (js ''image_asset_pointer'') (Some (js ''file-service://a'')) None,
                      ObjectPart (js ''audio_transcription'') None (Some (js ''spoken''))],
      c_text = None, c_title = None\<rparr>"

text \<open>A citation whose index is the Number 1e20.\<close>

definition farCitation :: Citation where
  "farCitation = \<lparr>cited_message_idx = Some (Finite 100000000000000000000),
                   cite_title = Some (js ''Far'')\<rparr>"

definition farMetadata :: Metadata where
  "farMetadata = \<lparr>aggregate_messages = None, citations = Some [farCitation],
                   metadata_list = None\<rparr>"



text \<open>A fenced line that indexes an array between escaped brackets.\<close>

definition exampleFence :: jstring where
  "exampleFence = js ''```'' @ nl @ js ''a'' @ [92] @ js ''[0'' @ [92] @ js '']'' @ nl @ js ''```''"

text \<open>
  A text with one bracket-delimited span at its end, a text with a span between words,
  a text that holds a U+256C and a digit before its span, and a round trip that
  escapes underscores, as a Markdown printer does in prose.
\<close>

definition spanAtEnd :: jstring where
  "spanAtEnd = js ''The result is '' @ [92] @ js ''(x_1'' @ [92] @ js '')''"

definition spanInside :: jstring where
  "spanInside = js ''so '' @ [92] @ js ''(x_1'' @ [92] @ js '') holds''"

definition spanAfterSentinel :: "jstring \<Rightarrow> jstring" where
  "spanAfterSentinel sep = [9580] @ js ''5'' @ sep @ [92] @ js ''(x'' @ [92] @ js '') ok''"

definition escapeUnderscores :: "jstring \<Rightarrow> jstring" where
  "escapeUnderscores t = concat (map (\<lambda>c. if c = 95 then [92, 95] else [c]) t)"

section \<open>Evaluating the model\<close>

text \<open>
  Equations that unfold \<open>dec\<close> and \<open>scan\<close> on literals only, so that the
  simplifier can run the model on a concrete input.
\<close>

lemma dec_small: "n < 10 \<Longrightarrow> dec n = [48 + n]"
  by (subst dec.simps) simp

lemma dec_numeral:
  "dec (numeral k) =
     (if (numeral k :: nat) < 10 then [48 + numeral k]
      else dec (numeral k div 10) @ [48 + numeral k mod 10])"
  by (subst dec.simps) simp

lemma scan_Nil:
  "scan re p [] = (case run re (p, [], []) of [] \<Rightarrow> [] | (p', s', g) # _ \<Rightarrow> [M [] g])"
  by (subst scan.simps) (simp split: list.splits)

lemma scan_Cons:
  "scan re p (x # xs) =
     (case run re (p, x # xs, []) of
        [] \<Rightarrow> C x # scan re (x # p) xs
      | (p', s', g) # _ \<Rightarrow>
          if length s' < Suc (length xs)
          then M (take (Suc (length xs) - length s') (x # xs)) g # scan re p' s'
          else M [] g # C x # scan re (x # p) xs)"
  by (subst scan.simps) (simp split: list.splits)

lemma replicate_numeral: "replicate (numeral k) x = x # replicate (pred_numeral k) x"
  by (simp add: numeral_eq_Suc)

lemmas ev = dec_small dec_numeral scan_Nil scan_Cons js_def replace_g_def replicate_numeral

lemmas model_defs =
  extractImagesFromConversation_md_def extractImagesFromConversation_html_def extractFromNode_def
  numbered_def imageContext_def imageMessage_def emptyMetadata_def
  processOne_def EmbedBase64_processImage_def SeparateFiles_processImage_def TextMarker_processImage_def
  generateImageId_def getMimeType_def generateImageFileName_def payload_def nth_opt_def
  getFileSizeFromBase64_def failedImage_def failureMarker_def messageContextOf_def
  sanitizeFileName_def createImageRelativePath_def
  startsWith_def is_alnum_def is_space_def is_reserved_def padStart0_def match_first_def dataUrlRegex_def
  base64ToBlob_def generateContentFromImages_def generateExportMetadata_def exportImageOf_def
  exampleRuntime_def okEnv_def exampleEnv_def Let_def

section \<open>Promise.all keeps the order of its inputs\<close>

lemma fulfil_length: "length (fulfil tasks i slots) = length slots"
  by (simp add: fulfil_def)

lemma fold_fulfil_length: "length (fold (fulfil tasks) order slots) = length slots"
  by (induction order arbitrary: slots) (simp_all add: fulfil_length)

lemma fulfil_nth:
  "k < length slots \<Longrightarrow> fulfil tasks i slots ! k = (if k = i then Some (tasks k) else slots ! k)"
  by (simp add: fulfil_def)

lemma fold_fulfil_nth:
  "k < length slots \<Longrightarrow>
   fold (fulfil tasks) order slots ! k = (if k \<in> set order then Some (tasks k) else slots ! k)"
proof (induction order arbitrary: slots)
  case Nil
  then show ?case by simp
next
  case (Cons i order)
  have "k < length (fulfil tasks i slots)"
    using Cons.prems by (simp add: fulfil_length)
  then show ?case
    using Cons.IH [of "fulfil tasks i slots"] Cons.prems
    by (auto simp: fulfil_nth)
qed

lemma promise_all_Some:
  assumes "promise_all n tasks order = Some vs"
  shows "vs = map tasks [0..<n]"
proof -
  let ?slots = "fold (fulfil tasks) order (replicate n None)"
  have filled: "list_all (\<lambda>v. v \<noteq> None) ?slots" and vs: "vs = map the ?slots"
    using assms by (auto simp: promise_all_def Let_def split: if_splits)
  have len: "length ?slots = n"
    by (simp add: fold_fulfil_length)
  have "?slots ! k = Some (tasks k)" if "k < n" for k
  proof -
    have "?slots ! k \<noteq> None"
      using filled that len by (simp add: list_all_length)
    then show ?thesis
      using fold_fulfil_nth [of k "replicate n None" tasks order] that
      by (auto split: if_splits)
  qed
  then show ?thesis
    using len vs by (intro nth_equalityI) simp_all
qed

lemma promise_all_complete:
  assumes "\<forall>k<n. k \<in> set order"
  shows "promise_all n tasks order = Some (map tasks [0..<n])"
proof -
  let ?slots = "fold (fulfil tasks) order (replicate n None)"
  have len: "length ?slots = n"
    by (simp add: fold_fulfil_length)
  have nth: "?slots ! k = Some (tasks k)" if "k < n" for k
    using fold_fulfil_nth [of k "replicate n None" tasks order] that assms by simp
  have "list_all (\<lambda>v. v \<noteq> None) ?slots"
    using len nth by (simp add: list_all_length)
  moreover have "map the ?slots = map tasks [0..<n]"
    using len nth by (intro nth_equalityI) simp_all
  ultimately show ?thesis
    by (simp add: promise_all_def Let_def)
qed

text \<open>
  With a strategy that produces no files the handler fulfils as soon as every task
  has completed.
\<close>

lemma processConversationImages_no_files:
  assumes "strategy \<noteq> separate_files" and "\<forall>k<length images. k \<in> set order"
  shows "processConversationImages strategy rt tenv order images =
           Fulfilled \<lparr>res_content = js ''[CONTENT_PLACEHOLDER]'', res_files = None,
                      res_metadata = None,
                      res_processedImages =
                        map (\<lambda>i. processOne strategy rt (tenv i) (images ! i)) [0..<length images]\<rparr>"
proof -
  have "promise_all (length images) (\<lambda>i. processOne strategy rt (tenv i) (images ! i)) order
          = Some (map (\<lambda>i. processOne strategy rt (tenv i) (images ! i)) [0..<length images])"
    by (rule promise_all_complete) (rule assms(2))
  then show ?thesis
    using assms(1) by (simp add: processConversationImages_def generateContentFromImages_def)
qed

text \<open>
  Claim C1. Whatever the strategy and in whatever order the per-image tasks complete,
  the list \<open>processedImages\<close> that \<open>processConversationImages\<close> returns is as long as
  the list of extracted pairs, and its i-th element is the result of processing the
  i-th pair.
\<close>

theorem processedImages_same_length_and_order:
  assumes "processConversationImages strategy rt tenv order images = Fulfilled r"
  shows "length (res_processedImages r) = length images \<and>
         (\<forall>i<length images.
            res_processedImages r ! i = processOne strategy rt (tenv i) (images ! i))"
proof -
  obtain vs where all: "promise_all (length images)
      (\<lambda>i. processOne strategy rt (tenv i) (images ! i)) order = Some vs"
    and r: "res_processedImages r = vs"
    using assms
    by (auto simp: processConversationImages_def split: option.splits sum.splits prod.splits)
  show ?thesis
    using promise_all_Some [OF all] r by simp
qed

theorem processedImages_same_length_and_order_witness:
  "\<exists>r. processConversationImages embed_base64 exampleRuntime exampleEnv [2, 0, 1] exampleImages
          = Fulfilled r
       \<and> length (res_processedImages r) = 3
       \<and> res_processedImages r ! 0
           = processOne embed_base64 exampleRuntime (exampleEnv 0) (exampleImages ! 0)
       \<and> res_processedImages r ! 1
           = processOne embed_base64 exampleRuntime (exampleEnv 1) (exampleImages ! 1)
       \<and> res_processedImages r ! 2
           = processOne embed_base64 exampleRuntime (exampleEnv 2) (exampleImages ! 2)"
proof -
  have len: "length exampleImages = 3"
    by (simp add: exampleImages_def)
  have "\<forall>k<length exampleImages. k \<in> set [2, 0, 1]"
    unfolding len by auto
  then obtain r where
    r: "processConversationImages embed_base64 exampleRuntime exampleEnv [2, 0, 1] exampleImages
          = Fulfilled r"
    using processConversationImages_no_files [of embed_base64 exampleImages "[2, 0, 1]"]
    by simp
  show ?thesis
    using processedImages_same_length_and_order [OF r] r len by simp
qed

section \<open>File names of a batch export are numbered apart\<close>

lemma to_number_snoc: "to_number (ds @ [d]) = 10 * to_number ds + (d - 48)"
  by (simp add: to_number_def)

lemma to_number_dec: "to_number (dec n) = n"
proof (induction n rule: dec.induct)
  case (1 n)
  show ?case
  proof (cases "n < 10")
    case True
    then show ?thesis
      by (subst dec.simps) (simp add: to_number_def)
  next
    case False
    then have "to_number (dec (n div 10)) = n div 10"
      using "1.IH" by simp
    then show ?thesis
      using False by (subst dec.simps) (simp add: to_number_snoc)
  qed
qed

lemma dec_inject: "dec a = dec b \<Longrightarrow> a = b"
  by (metis to_number_dec)

lemma dec_not_Nil: "dec n \<noteq> []"
  by (subst dec.simps) simp

lemma length_dedupFileNames: "length (dedupFileNames d e m fileNames) = length fileNames"
  by (induction fileNames arbitrary: m) (simp_all split: option.splits)

lemma dedupFileNames_nth:
  "i < length fileNames \<Longrightarrow>
   dedupFileNames d e m fileNames ! i =
     (case m (fileNames ! i) of
        None \<Rightarrow> if count_list (take i fileNames) (fileNames ! i) = 0 then fileNames ! i
                else numberedName d e (fileNames ! i) (count_list (take i fileNames) (fileNames ! i))
      | Some c \<Rightarrow> numberedName d e (fileNames ! i)
                    (c + count_list (take i fileNames) (fileNames ! i)))"
proof (induction fileNames arbitrary: m i)
  case Nil
  then show ?case by simp
next
  case (Cons f rest)
  show ?case
  proof (cases i)
    case 0
    then show ?thesis
      by (simp add: numberedName_def split: option.splits)
  next
    case (Suc i')
    then have i': "i' < length rest"
      using Cons.prems by simp
    let ?g = "rest ! i'"
    let ?j = "count_list (take i' rest) ?g"
    show ?thesis
    proof (cases "m f")
      case None
      have "dedupFileNames d e m (f # rest) ! i = dedupFileNames d e (m(f \<mapsto> 1)) rest ! i'"
        using None Suc by simp
      also have "\<dots> = (case (m(f \<mapsto> 1)) ?g of
            None \<Rightarrow> if ?j = 0 then ?g else numberedName d e ?g ?j
          | Some c \<Rightarrow> numberedName d e ?g (c + ?j))"
        by (rule Cons.IH [OF i'])
      finally show ?thesis
        using None Suc by (cases "?g = f") (simp_all split: option.splits)
    next
      case (Some c)
      have "dedupFileNames d e m (f # rest) ! i = dedupFileNames d e (m(f \<mapsto> c + 1)) rest ! i'"
        using Some Suc by simp
      also have "\<dots> = (case (m(f \<mapsto> c + 1)) ?g of
            None \<Rightarrow> if ?j = 0 then ?g else numberedName d e ?g ?j
          | Some c \<Rightarrow> numberedName d e ?g (c + ?j))"
        by (rule Cons.IH [OF i'])
      finally show ?thesis
        using Some Suc by (cases "?g = f") (simp_all split: option.splits)
    qed
  qed
qed

lemma numberedName_neq_self: "length e \<ge> d \<Longrightarrow> numberedName d e f k \<noteq> f"
proof
  assume d: "d \<le> length e" and eq: "numberedName d e f k = f"
  have "length (numberedName d e f k) = (length f - d) + 2 + length (dec k) + 1 + length e"
    by (simp add: numberedName_def js_def)
  moreover have "length (dec k) > 0"
    using dec_not_Nil by simp
  ultimately have "length (numberedName d e f k) > length f"
    using d by linarith
  then show False
    using eq by simp
qed

lemma numberedName_inject: "numberedName d e f a = numberedName d e f b \<Longrightarrow> a = b"
  by (simp add: numberedName_def dec_inject)

lemma count_list_take_less:
  assumes "j < i" and "i < length xs" and "xs ! j = xs ! i"
  shows "count_list (take j xs) (xs ! i) < count_list (take i xs) (xs ! i)"
proof -
  have "take i xs = take j xs @ xs ! j # take (i - Suc j) (drop (Suc j) xs)"
    using assms(1,2)
    by (metis Suc_leI add_diff_inverse_nat id_take_nth_drop less_imp_le_nat less_trans linorder_not_le take_add take_Suc_conv_app_nth append.assoc append_Cons append_Nil)
  then show ?thesis
    using assms(3) by simp
qed


text \<open>
  Claim C9. In a batch export the k-th later conversation that computes a file name
  already seen gets that name with \<open> (k)\<close> put before the extension: the second
  one \<open> (1)\<close>, the third \<open> (2)\<close>. Two conversations that computed the same
  name are never stored under the same name.
\<close>

theorem batch_file_names_numbered:
  assumes "i < length fileNames"
  shows "(fileNames ! i = base @ js ''.md'' \<longrightarrow>
            exportAllToMarkdown fileNames ! i =
              (if count_list (take i fileNames) (fileNames ! i) = 0 then base @ js ''.md''
               else base @ js '' ('' @ dec (count_list (take i fileNames) (fileNames ! i))
                      @ js '').md''))
       \<and> (fileNames ! i = base @ js ''.html'' \<longrightarrow>
            exportAllToHtml fileNames ! i =
              (if count_list (take i fileNames) (fileNames ! i) = 0 then base @ js ''.html''
               else base @ js '' ('' @ dec (count_list (take i fileNames) (fileNames ! i))
                      @ js '').html''))
       \<and> (\<forall>j<i. fileNames ! j = fileNames ! i \<longrightarrow>
              exportAllToMarkdown fileNames ! j \<noteq> exportAllToMarkdown fileNames ! i
            \<and> exportAllToHtml fileNames ! j \<noteq> exportAllToHtml fileNames ! i)"
proof -
  let ?f = "fileNames ! i"
  let ?k = "count_list (take i fileNames) ?f"
  have md: "exportAllToMarkdown fileNames ! i =
      (if ?k = 0 then base @ js ''.md'' else base @ js '' ('' @ dec ?k @ js '').md'')"
    if "?f = base @ js ''.md''"
    using that dedupFileNames_nth [OF assms, of 3 "js ''.md''" Map.empty]
    by (simp add: exportAllToMarkdown_def numberedName_def js_def)
  have html: "exportAllToHtml fileNames ! i =
      (if ?k = 0 then base @ js ''.html'' else base @ js '' ('' @ dec ?k @ js '').html'')"
    if "?f = base @ js ''.html''"
    using that dedupFileNames_nth [OF assms, of 5 "js ''.html''" Map.empty]
    by (simp add: exportAllToHtml_def numberedName_def js_def)
  have differ: "dedupFileNames d e Map.empty fileNames ! j \<noteq> dedupFileNames d e Map.empty fileNames ! i"
    if "d \<le> length e" and j: "j < i" and same: "fileNames ! j = ?f" for d e j
  proof -
    have jl: "j < length fileNames"
      using j assms by simp
    have less: "count_list (take j fileNames) ?f < ?k"
      using count_list_take_less [OF j assms same] .
    have i_eq: "dedupFileNames d e Map.empty fileNames ! i = numberedName d e ?f ?k"
      using dedupFileNames_nth [OF assms, of d e Map.empty] less by simp
    have j_eq: "dedupFileNames d e Map.empty fileNames ! j
                  = (if count_list (take j fileNames) ?f = 0 then ?f
                     else numberedName d e ?f (count_list (take j fileNames) ?f))"
      using dedupFileNames_nth [OF jl, of d e Map.empty] same by simp
    show ?thesis
      using i_eq j_eq less numberedName_neq_self [OF that(1), of ?f] numberedName_inject [of d e ?f]
      by (metis less_irrefl)
  qed
  have "exportAllToMarkdown fileNames ! j \<noteq> exportAllToMarkdown fileNames ! i
      \<and> exportAllToHtml fileNames ! j \<noteq> exportAllToHtml fileNames ! i"
    if "j < i" and "fileNames ! j = ?f" for j
    using differ [of 3 "js ''.md''" j] differ [of 5 "js ''.html''" j] that
    by (simp add: exportAllToMarkdown_def exportAllToHtml_def js_def)
  then show ?thesis
    using md html by blast
qed

theorem batch_file_names_numbered_witness:
  "exportAllToMarkdown [js ''a.md'', js ''a.md'', js ''b.md'', js ''a.md''] ! 1 = js ''a (1).md''
   \<and> exportAllToMarkdown [js ''a.md'', js ''a.md'', js ''b.md'', js ''a.md''] ! 3 = js ''a (2).md''
   \<and> exportAllToHtml [js ''a.html'', js ''a.html'', js ''a.html''] ! 2 = js ''a (2).html''
   \<and> exportAllToMarkdown [js ''a.md'', js ''a.md'', js ''b.md'', js ''a.md''] ! 1
       \<noteq> exportAllToMarkdown [js ''a.md'', js ''a.md'', js ''b.md'', js ''a.md''] ! 3"
  using batch_file_names_numbered [of 1 "[js ''a.md'', js ''a.md'', js ''b.md'', js ''a.md'']" "js ''a''"]
    batch_file_names_numbered [of 3 "[js ''a.md'', js ''a.md'', js ''b.md'', js ''a.md'']" "js ''a''"]
    batch_file_names_numbered [of 2 "[js ''a.html'', js ''a.html'', js ''a.html'']" "js ''a''"]
  by (simp add: ev dec_small)

section \<open>The file strategy names files by author and local index\<close>

lemma processConversationImages_files:
  assumes "\<forall>k<length images. k \<in> set order"
    and "collectFiles rt (map (\<lambda>i. processOne separate_files rt (tenv i) (images ! i))
                            [0..<length images]) = Inr files"
  shows "\<exists>r. processConversationImages separate_files rt tenv order images = Fulfilled r
           \<and> res_processedImages r
               = map (\<lambda>i. processOne separate_files rt (tenv i) (images ! i)) [0..<length images]
           \<and> res_files r = (if files = [] then None else Some files)"
proof -
  have "promise_all (length images) (\<lambda>i. processOne separate_files rt (tenv i) (images ! i)) order
          = Some (map (\<lambda>i. processOne separate_files rt (tenv i) (images ! i)) [0..<length images])"
    by (rule promise_all_complete) (rule assms(1))
  then show ?thesis
    using assms(2) by (simp add: processConversationImages_def generateContentFromImages_def)
qed



lemma colliding_length: "length collidingImages = 2"
  by (simp add: collidingImages_def collidingProcessed_def collidingConversation_def model_defs ev)
lemma colliding_ids: "map (ctx_messageId \<circ> snd) collidingImages = [js ''msg-a'', js ''msg-b'']"
  by (simp add: collidingImages_def collidingProcessed_def collidingConversation_def model_defs ev)
lemma colliding_names: "map img_fileName collidingProcessed
      = [Some (js ''user-upload-000.png''), Some (js ''user-upload-000.png'')]"
  by (simp add: collidingImages_def collidingProcessed_def collidingConversation_def model_defs ev)
lemma colliding_contents: "map img_content collidingProcessed
      = [js ''images/user-upload-000.png'', js ''images/user-upload-000.png'']"
  by (simp add: collidingImages_def collidingProcessed_def collidingConversation_def model_defs ev)
lemma colliding_files: "\<exists>files. collectFiles exampleRuntime collidingProcessed = Inr files
          \<and> map ef_path files = [js ''images/user-upload-000.png'', js ''images/user-upload-000.png'']"
  by (simp add: collidingImages_def collidingProcessed_def collidingConversation_def model_defs ev)

text \<open>
  Claim C10. The file name of the file strategy is built from the author, the index of
  the image within its message and the extension; the conversation, the message, the
  locator and the timestamp do not enter it. So there is a conversation in which two
  images of different messages get the same file name and the same path
  \<open>images/<fileName>\<close>, and the two export files carry the same path.
\<close>

theorem separate_files_names_collide:
  "generateImageFileName rt
      (context\<lparr>ctx_conversationId := c, ctx_messageId := m, ctx_mimeType := t,
               ctx_originalUrl := u, ctx_contentType := k, ctx_timestamp := ts\<rparr>) extension
     = generateImageFileName rt context extension
   \<and> (\<exists>r. processConversationImages separate_files exampleRuntime okEnv [0, 1]
             collidingImages = Fulfilled r
        \<and> map (ctx_messageId \<circ> snd) collidingImages
            = [js ''msg-a'', js ''msg-b'']
        \<and> map img_fileName (res_processedImages r)
            = [Some (js ''user-upload-000.png''), Some (js ''user-upload-000.png'')]
        \<and> map img_content (res_processedImages r)
            = [js ''images/user-upload-000.png'', js ''images/user-upload-000.png'']
        \<and> map_option (map ef_path) (res_files r)
            = Some [js ''images/user-upload-000.png'', js ''images/user-upload-000.png''])"
proof
  show "generateImageFileName rt
      (context\<lparr>ctx_conversationId := c, ctx_messageId := m, ctx_mimeType := t,
               ctx_originalUrl := u, ctx_contentType := k, ctx_timestamp := ts\<rparr>) extension
     = generateImageFileName rt context extension"
    by (simp add: generateImageFileName_def)
next
  have upt: "[0..<length collidingImages] = [0, 1]"
    unfolding colliding_length by (simp add: upt_conv_Cons)
  obtain files where files: "collectFiles exampleRuntime collidingProcessed = Inr files"
    and paths: "map ef_path files = [js ''images/user-upload-000.png'', js ''images/user-upload-000.png'']"
    using colliding_files by (elim exE conjE) (rule that, assumption+)
  have complete: "\<forall>k<length collidingImages. k \<in> set [0, 1]"
    unfolding colliding_length by auto
  have files': "collectFiles exampleRuntime
      (map (\<lambda>i. processOne separate_files exampleRuntime (okEnv i) (collidingImages ! i))
         [0..<length collidingImages]) = Inr files"
    unfolding upt collidingProcessed_def [symmetric] by (rule files)
  obtain r where r: "processConversationImages separate_files exampleRuntime okEnv [0, 1] collidingImages
                       = Fulfilled r"
    and processed: "res_processedImages r = collidingProcessed"
    and rfiles: "res_files r = (if files = [] then None else Some files)"
    using processConversationImages_files [OF complete files']
    unfolding upt collidingProcessed_def [symmetric]
    by (elim exE conjE) (rule that, assumption+)
  have "files \<noteq> []"
    using paths by auto
  then have paths': "map_option (map ef_path) (res_files r)
      = Some [js ''images/user-upload-000.png'', js ''images/user-upload-000.png'']"
    using rfiles paths by simp
  show "\<exists>r. processConversationImages separate_files exampleRuntime okEnv [0, 1] collidingImages
             = Fulfilled r
        \<and> map (ctx_messageId \<circ> snd) collidingImages = [js ''msg-a'', js ''msg-b'']
        \<and> map img_fileName (res_processedImages r)
            = [Some (js ''user-upload-000.png''), Some (js ''user-upload-000.png'')]
        \<and> map img_content (res_processedImages r)
            = [js ''images/user-upload-000.png'', js ''images/user-upload-000.png'']
        \<and> map_option (map ef_path) (res_files r)
            = Some [js ''images/user-upload-000.png'', js ''images/user-upload-000.png'']"
  proof (intro exI [of _ r] conjI)
    show "processConversationImages separate_files exampleRuntime okEnv [0, 1] collidingImages = Fulfilled r"
      by (rule r)
    show "map (ctx_messageId \<circ> snd) collidingImages = [js ''msg-a'', js ''msg-b'']"
      by (rule colliding_ids)
    show "map img_fileName (res_processedImages r)
            = [Some (js ''user-upload-000.png''), Some (js ''user-upload-000.png'')]"
      unfolding processed by (rule colliding_names)
    show "map img_content (res_processedImages r)
            = [js ''images/user-upload-000.png'', js ''images/user-upload-000.png'']"
      unfolding processed by (rule colliding_contents)
    show "map_option (map ef_path) (res_files r)
            = Some [js ''images/user-upload-000.png'', js ''images/user-upload-000.png'']"
      by (rule paths')
  qed
qed

section \<open>Extraction, counting and post-processing in the renderers\<close>

lemmas render_defs =
  isRendered_def countImagesInMessage_def messageContent_def transformContent_def nl_def
  driftConversation_def emptyPointerConversation_def

text \<open>
  Claim C2 says that every rendered message gets as \<open>imageStartIndex\<close> the number of
  images extracted from the messages before it, and that the counts add up to the
  number of extracted images. The code does not keep this. Extraction reads every
  message, the counter only the rendered ones: in \<open>driftConversation\<close> one image is
  extracted before the user message, yet that message is rendered with start index 0
  and shows the processed image 0, the image of the skipped message. And the counter
  counts an image part whose locator is empty, which the Markdown extractor leaves
  out: in \<open>emptyPointerConversation\<close> the counter ends at 1 with nothing extracted.
\<close>

theorem image_start_index_drifts:
  "renderLoop (conversationNodes driftConversation) 0
     = [(0, imageMessage (js ''msg-u'') (js ''user'') (js ''all'') (js ''file-service://shown''))]
   \<and> map fst (extractImagesFromConversation_md
                 (driftConversation\<lparr>conversationNodes := take 1 (conversationNodes driftConversation)\<rparr>))
       = [js ''file-service://hidden'']
   \<and> map fst (extractImagesFromConversation_md driftConversation)
       = [js ''file-service://hidden'', js ''file-service://shown'']
   \<and> messageContent Markdown roundTrip processedImages
         (0, imageMessage (js ''msg-u'') (js ''user'') (js ''all'') (js ''file-service://shown''))
       = imageRef Markdown processedImages 0
   \<and> map (\<lambda>(imageStartIndex, message). imageStartIndex + countImagesInMessage message)
         (renderLoop (conversationNodes emptyPointerConversation) 0) = [1]
   \<and> extractImagesFromConversation_md emptyPointerConversation = []"
  by (simp add: render_defs model_defs ev)

text \<open>
  Claim C3 says that the two extractors return the same list for every conversation.
  They differ on an image part whose \<open>asset_pointer\<close> is the empty string: the
  Markdown extractor tests the pointer for truth and skips the part, the HTML
  extractor tests that the key is present and extracts it.
\<close>

theorem extractors_disagree_on_empty_pointer:
  "extractImagesFromConversation_md emptyPointerConversation = []
   \<and> map fst (extractImagesFromConversation_html emptyPointerConversation) = [[]]
   \<and> extractImagesFromConversation_md emptyPointerConversation
       \<noteq> extractImagesFromConversation_html emptyPointerConversation"
  by (simp add: render_defs model_defs ev)

text \<open>
  Claim C8 says that the fragments of \<open>code\<close>, \<open>tether_quote\<close>,
  \<open>tether_browsing_display\<close> and \<open>execution_output\<close> are never run through
  \<open>postProcess\<close>. For the last three the result does depend on \<open>postProcess\<close>.
\<close>

theorem quote_and_output_are_post_processed:
  "\<not> (\<forall>postProcess. transformContent Markdown exampleQuote emptyMetadata postProcess [] 0
          = transformContent Markdown exampleQuote emptyMetadata (\<lambda>t. t) [] 0)
   \<and> \<not> (\<forall>postProcess. transformContent Html
             (exampleCode\<lparr>content_type := js ''execution_output''\<rparr>) emptyMetadata postProcess [] 0
          = transformContent Html
             (exampleCode\<lparr>content_type := js ''execution_output''\<rparr>) emptyMetadata (\<lambda>t. t) [] 0)
   \<and> \<not> (\<forall>postProcess. transformContent Markdown
             (exampleCode\<lparr>content_type := js ''tether_browsing_display''\<rparr>) emptyMetadata postProcess [] 0
          = transformContent Markdown
             (exampleCode\<lparr>content_type := js ''tether_browsing_display''\<rparr>) emptyMetadata (\<lambda>t. t) [] 0)"
proof (intro conjI notI)
  assume "\<forall>postProcess. transformContent Markdown exampleQuote emptyMetadata postProcess [] 0
          = transformContent Markdown exampleQuote emptyMetadata (\<lambda>t. t) [] 0"
  then have "transformContent Markdown exampleQuote emptyMetadata (\<lambda>t. []) [] 0
          = transformContent Markdown exampleQuote emptyMetadata (\<lambda>t. t) [] 0"
    by (rule spec)
  then show False
    by (simp add: transformContent_def exampleQuote_def emptyMetadata_def js_def)
next
  let ?c = "exampleCode\<lparr>content_type := js ''execution_output''\<rparr>"
  assume "\<forall>postProcess. transformContent Html ?c emptyMetadata postProcess [] 0
          = transformContent Html ?c emptyMetadata (\<lambda>t. t) [] 0"
  then have "transformContent Html ?c emptyMetadata (\<lambda>t. []) [] 0
          = transformContent Html ?c emptyMetadata (\<lambda>t. t) [] 0"
    by (rule spec)
  then show False
    by (simp add: transformContent_def exampleCode_def emptyMetadata_def js_def)
next
  let ?c = "exampleCode\<lparr>content_type := js ''tether_browsing_display''\<rparr>"
  assume "\<forall>postProcess. transformContent Markdown ?c emptyMetadata postProcess [] 0
          = transformContent Markdown ?c emptyMetadata (\<lambda>t. t) [] 0"
  then have "transformContent Markdown ?c emptyMetadata (\<lambda>t. js ''x'') [] 0
          = transformContent Markdown ?c emptyMetadata (\<lambda>t. t) [] 0"
    by (rule spec)
  then show False
    by (simp add: transformContent_def exampleCode_def emptyMetadata_def js_def)
qed


lemma content_type_names:
  "js ''code'' \<noteq> js ''text''" "js ''execution_output'' \<noteq> js ''text''"
  "js ''execution_output'' \<noteq> js ''code''" "js ''tether_quote'' \<noteq> js ''text''"
  "js ''tether_quote'' \<noteq> js ''code''" "js ''tether_quote'' \<noteq> js ''execution_output''"
  "js ''tether_browsing_display'' \<noteq> js ''text''" "js ''tether_browsing_display'' \<noteq> js ''code''"
  "js ''tether_browsing_display'' \<noteq> js ''execution_output''"
  "js ''tether_browsing_display'' \<noteq> js ''tether_quote''"
  "js ''tether_browsing_display'' \<noteq> js ''tether_browsing_code''"
  by (simp_all add: js_def)

lemma content_type_more:
  "js ''multimodal_text'' \<noteq> js ''text''" "js ''multimodal_text'' \<noteq> js ''code''"
  "js ''multimodal_text'' \<noteq> js ''execution_output''" "js ''multimodal_text'' \<noteq> js ''tether_quote''"
  "js ''multimodal_text'' \<noteq> js ''tether_browsing_code''"
  "js ''multimodal_text'' \<noteq> js ''tether_browsing_display''"
  by (simp_all add: js_def)

lemma imageRef_not_Nil: "imageRef fmt processedImages globalIndex \<noteq> []"
  by (simp add: imageRef_def js_def split: option.splits Format.splits)

lemma join_not_Nil: "xs \<noteq> [] \<Longrightarrow> hd xs \<noteq> [] \<Longrightarrow> join sep xs \<noteq> []"
  by (induction sep xs rule: join.induct) simp_all

lemma imageContent_not_Nil:
  "0 < n \<Longrightarrow>
   join sep (map (\<lambda>index. imageRef fmt processedImages (imageStartIndex + index)) [0..<n]) \<noteq> []"
  by (rule join_not_Nil) (simp_all add: imageRef_not_Nil hd_map upt_conv_Cons del: upt_Suc)

lemma transformContent_execution_output:
  assumes "content_type content = js ''execution_output''"
  shows "transformContent fmt content metadata post processedImages imageStartIndex
        = post
            (js ''Result:'' @ nl @ js ''```'' @ nl @ shown (c_text content) @ nl @ js ''```''
             @ (let imageMessages = filter (\<lambda>msg. message_type msg = js ''image'')
                       (case aggregate_messages metadata of None \<Rightarrow> [] | Some msgs \<Rightarrow> msgs)
                in if imageMessages = [] then []
                   else nl @ nl @ join (nl @ nl)
                          (map (\<lambda>index. imageRef fmt processedImages (imageStartIndex + index))
                             [0..<length imageMessages])))"
proof -
  let ?msgs = "filter (\<lambda>msg. message_type msg = js ''image'')
                 (case aggregate_messages metadata of None \<Rightarrow> [] | Some msgs \<Rightarrow> msgs)"
  have "?msgs \<noteq> [] \<Longrightarrow>
      join (nl @ nl) (map (\<lambda>index. imageRef fmt processedImages (imageStartIndex + index))
                        [0..<length ?msgs]) \<noteq> []"
    by (rule imageContent_not_Nil) simp
  then show ?thesis
    using assms by (simp add: transformContent_def Let_def content_type_names)
qed


lemma transformContent_multimodal_text:
  assumes "content_type content = js ''multimodal_text''"
  shows "transformContent fmt content metadata post processedImages imageStartIndex
        = (case c_parts content of
             None \<Rightarrow> []
           | Some parts \<Rightarrow>
               join nl (concat (map
                 (\<lambda>(partIndex, part).
                    case part of
                      StringPart t \<Rightarrow> [post t]
                    | ObjectPart t pointer txt \<Rightarrow>
                        if t = js ''image_asset_pointer''
                        then [imageRef fmt processedImages
                                (imageStartIndex + length (filter isImagePart (take partIndex parts)))]
                        else if t = js ''audio_transcription''
                        then [case fmt of
                                Markdown \<Rightarrow> js ''[audio] '' @ shown txt
                              | Html \<Rightarrow> js ''<div style='' @ [34]
                                         @ js ''font-style: italic; opacity: 0.65;'' @ [34]
                                         @ js ''>'' @ [34] @ shown txt @ [34] @ js ''</div>'']
                        else if t = js ''audio_asset_pointer''
                                \<or> t = js ''real_time_user_audio_video_asset_pointer''
                        then []
                        else [post (js ''[Unsupported multimodal content]'')])
                 (enumerate 0 parts))))"
proof (cases "c_parts content")
  case None
  then show ?thesis
    using assms by (simp add: transformContent_def content_type_more)
next
  case (Some parts)
  have piece: "(case transformPart fmt post processedImages imageStartIndex parts p of
                  None \<Rightarrow> [] | Some t \<Rightarrow> [t])
      = (case p of (partIndex, part) \<Rightarrow>
           case part of
             StringPart t \<Rightarrow> [post t]
           | ObjectPart t pointer txt \<Rightarrow>
               if t = js ''image_asset_pointer''
               then [imageRef fmt processedImages
                       (imageStartIndex + length (filter isImagePart (take partIndex parts)))]
               else if t = js ''audio_transcription''
               then [case fmt of
                       Markdown \<Rightarrow> js ''[audio] '' @ shown txt
                     | Html \<Rightarrow> js ''<div style='' @ [34]
                                @ js ''font-style: italic; opacity: 0.65;'' @ [34]
                                @ js ''>'' @ [34] @ shown txt @ [34] @ js ''</div>'']
               else if t = js ''audio_asset_pointer''
                       \<or> t = js ''real_time_user_audio_video_asset_pointer''
               then []
               else [post (js ''[Unsupported multimodal content]'')])" for p
  proof (cases p)
    case (Pair partIndex part)
    then show ?thesis
      by (cases part) simp_all
  qed
  have "transformContent fmt content metadata post processedImages imageStartIndex
      = join nl (concat (map (\<lambda>p. case transformPart fmt post processedImages
                                          imageStartIndex parts p of
                                     None \<Rightarrow> [] | Some t \<Rightarrow> [t])
                           (enumerate 0 parts)))"
    using assms Some by (simp add: transformContent_def content_type_more)
  also have "\<dots> = join nl (concat (map
                 (\<lambda>(partIndex, part).
                    case part of
                      StringPart t \<Rightarrow> [post t]
                    | ObjectPart t pointer txt \<Rightarrow>
                        if t = js ''image_asset_pointer''
                        then [imageRef fmt processedImages
                                (imageStartIndex + length (filter isImagePart (take partIndex parts)))]
                        else if t = js ''audio_transcription''
                        then [case fmt of
                                Markdown \<Rightarrow> js ''[audio] '' @ shown txt
                              | Html \<Rightarrow> js ''<div style='' @ [34]
                                         @ js ''font-style: italic; opacity: 0.65;'' @ [34]
                                         @ js ''>'' @ [34] @ shown txt @ [34] @ js ''</div>'']
                        else if t = js ''audio_asset_pointer''
                                \<or> t = js ''real_time_user_audio_video_asset_pointer''
                        then []
                        else [post (js ''[Unsupported multimodal content]'')])
                 (enumerate 0 parts)))"
    by (intro arg_cong [where f = "join nl"] arg_cong [where f = concat] map_cong refl)
       (rule piece)
  finally show ?thesis
    using Some by simp
qed


lemma transformContent_fragment:
  assumes "content_type content \<noteq> js ''code''" and "content_type content \<noteq> js ''multimodal_text''"
  shows "\<exists>fragment. \<forall>p. transformContent fmt content metadata p processedImages imageStartIndex
           = p fragment"
proof -
  consider (plain) "content_type content = js ''text''"
    | (exec) "content_type content = js ''execution_output''"
    | (quote) "content_type content = js ''tether_quote''"
    | (browse) "content_type content = js ''tether_browsing_code''"
    | (display) "content_type content = js ''tether_browsing_display''"
    | (other) "content_type content \<noteq> js ''text''" "content_type content \<noteq> js ''execution_output''"
        "content_type content \<noteq> js ''tether_quote''"
        "content_type content \<noteq> js ''tether_browsing_code''"
        "content_type content \<noteq> js ''tether_browsing_display''"
    by blast
  then show ?thesis
  proof cases
    case plain
    then show ?thesis
      by (simp add: transformContent_def) (rule exI, rule allI, rule refl)
  next
    case exec
    show ?thesis
      unfolding transformContent_execution_output [OF exec] by (rule exI, rule allI, rule refl)
  next
    case quote
    then show ?thesis
      by (simp add: transformContent_def content_type_names) (rule exI, rule allI, rule refl)
  next
    case browse
    then show ?thesis
      by (simp add: transformContent_def js_def) (rule exI, rule allI, rule refl)
  next
    case display
    then show ?thesis
      by (cases "metadata_list metadata")
         (auto simp: transformContent_def content_type_names)
  next
    case other
    then show ?thesis
      using assms by (cases fmt) (simp_all add: transformContent_def, (rule exI, rule allI, rule refl)+)
  qed
qed


text \<open>
  Claim C8 as amended. Where \<open>transformContent\<close> applies \<open>post\<close>, for each content
  type and whatever the format. A \<open>code\<close> content gives its fenced text, untouched. A
  \<open>text\<close>, \<open>tether_quote\<close>, \<open>tether_browsing_display\<close> or \<open>execution_output\<close> content
  builds its fragment (for the last, the fenced output and the image references) and
  hands the whole of it to \<open>post\<close>. In a \<open>multimodal_text\<close> content each string
  part and the note for an unknown part go through \<open>post\<close>, while an image
  reference and an audio transcript are printed as built and the audio and video
  pointers are dropped. Every content type other than \<open>code\<close> and \<open>multimodal_text\<close>
  yields \<open>post\<close> of a fragment that does not depend on \<open>post\<close>.
\<close>

theorem post_processing_by_content_type:
  "(content_type content = js ''code'' \<longrightarrow>
      transformContent fmt content metadata post processedImages imageStartIndex
        = js ''Code:'' @ nl @ js ''```'' @ nl @ shown (c_text content) @ nl @ js ''```'')
   \<and> (content_type content = js ''text'' \<longrightarrow>
      transformContent fmt content metadata post processedImages imageStartIndex
        = post (case c_parts content of
                         None \<Rightarrow> []
                       | Some parts \<Rightarrow> join nl (map partString parts)))
   \<and> (content_type content = js ''tether_quote'' \<longrightarrow>
      transformContent fmt content metadata post processedImages imageStartIndex
        = post (js ''> '' @ (if c_title content \<noteq> None \<and> c_title content \<noteq> Some []
                                    then the (c_title content)
                                    else case c_text content of None \<Rightarrow> [] | Some x \<Rightarrow> x)))
   \<and> (content_type content = js ''tether_browsing_display'' \<longrightarrow>
      transformContent fmt content metadata post processedImages imageStartIndex
        = post (case metadata_list metadata of
                         None \<Rightarrow> []
                       | Some metadataList \<Rightarrow>
                           join nl (map (\<lambda>m. js ''> ['' @ cm_title m @ js ''](''  @ cm_url m @ js '')'')
                                      metadataList)))
   \<and> (content_type content = js ''execution_output'' \<longrightarrow>
      transformContent fmt content metadata post processedImages imageStartIndex
        = post
            (js ''Result:'' @ nl @ js ''```'' @ nl @ shown (c_text content) @ nl @ js ''```''
             @ (let imageMessages = filter (\<lambda>msg. message_type msg = js ''image'')
                       (case aggregate_messages metadata of None \<Rightarrow> [] | Some msgs \<Rightarrow> msgs)
                in if imageMessages = [] then []
                   else nl @ nl @ join (nl @ nl)
                          (map (\<lambda>index. imageRef fmt processedImages (imageStartIndex + index))
                             [0..<length imageMessages]))))
   \<and> (content_type content = js ''multimodal_text'' \<longrightarrow>
      transformContent fmt content metadata post processedImages imageStartIndex
        = (case c_parts content of
             None \<Rightarrow> []
           | Some parts \<Rightarrow>
               join nl (concat (map
                 (\<lambda>(partIndex, part).
                    case part of
                      StringPart t \<Rightarrow> [post t]
                    | ObjectPart t pointer txt \<Rightarrow>
                        if t = js ''image_asset_pointer''
                        then [imageRef fmt processedImages
                                (imageStartIndex + length (filter isImagePart (take partIndex parts)))]
                        else if t = js ''audio_transcription''
                        then [case fmt of
                                Markdown \<Rightarrow> js ''[audio] '' @ shown txt
                              | Html \<Rightarrow> js ''<div style='' @ [34]
                                         @ js ''font-style: italic; opacity: 0.65;'' @ [34]
                                         @ js ''>'' @ [34] @ shown txt @ [34] @ js ''</div>'']
                        else if t = js ''audio_asset_pointer''
                                \<or> t = js ''real_time_user_audio_video_asset_pointer''
                        then []
                        else [post (js ''[Unsupported multimodal content]'')])
                 (enumerate 0 parts)))))
   \<and> (content_type content \<noteq> js ''code'' \<and> content_type content \<noteq> js ''multimodal_text'' \<longrightarrow>
      (\<exists>fragment. \<forall>p.
         transformContent fmt content metadata p processedImages imageStartIndex
           = p fragment))"
proof (intro conjI impI)
  assume "content_type content = js ''code''"
  then show "transformContent fmt content metadata post processedImages imageStartIndex
        = js ''Code:'' @ nl @ js ''```'' @ nl @ shown (c_text content) @ nl @ js ''```''"
    by (simp add: transformContent_def content_type_names)
next
  assume "content_type content = js ''text''"
  then show "transformContent fmt content metadata post processedImages imageStartIndex
        = post (case c_parts content of
                         None \<Rightarrow> []
                       | Some parts \<Rightarrow> join nl (map partString parts))"
    by (simp add: transformContent_def)
next
  assume "content_type content = js ''tether_quote''"
  then show "transformContent fmt content metadata post processedImages imageStartIndex
        = post (js ''> '' @ (if c_title content \<noteq> None \<and> c_title content \<noteq> Some []
                                    then the (c_title content)
                                    else case c_text content of None \<Rightarrow> [] | Some x \<Rightarrow> x))"
    by (cases "c_title content") (simp_all add: transformContent_def content_type_names)
next
  assume "content_type content = js ''tether_browsing_display''"
  then show "transformContent fmt content metadata post processedImages imageStartIndex
        = post (case metadata_list metadata of
                         None \<Rightarrow> []
                       | Some metadataList \<Rightarrow>
                           join nl (map (\<lambda>m. js ''> ['' @ cm_title m @ js ''](''  @ cm_url m @ js '')'')
                                      metadataList))"
    by (cases "metadata_list metadata") (simp_all add: transformContent_def content_type_names)
next
  assume "content_type content = js ''execution_output''"
  then show "transformContent fmt content metadata post processedImages imageStartIndex
        = post
            (js ''Result:'' @ nl @ js ''```'' @ nl @ shown (c_text content) @ nl @ js ''```''
             @ (let imageMessages = filter (\<lambda>msg. message_type msg = js ''image'')
                       (case aggregate_messages metadata of None \<Rightarrow> [] | Some msgs \<Rightarrow> msgs)
                in if imageMessages = [] then []
                   else nl @ nl @ join (nl @ nl)
                          (map (\<lambda>index. imageRef fmt processedImages (imageStartIndex + index))
                             [0..<length imageMessages])))"
    by (rule transformContent_execution_output)
next
  assume "content_type content = js ''multimodal_text''"
  then show "transformContent fmt content metadata post processedImages imageStartIndex
        = (case c_parts content of
             None \<Rightarrow> []
           | Some parts \<Rightarrow>
               join nl (concat (map
                 (\<lambda>(partIndex, part).
                    case part of
                      StringPart t \<Rightarrow> [post t]
                    | ObjectPart t pointer txt \<Rightarrow>
                        if t = js ''image_asset_pointer''
                        then [imageRef fmt processedImages
                                (imageStartIndex + length (filter isImagePart (take partIndex parts)))]
                        else if t = js ''audio_transcription''
                        then [case fmt of
                                Markdown \<Rightarrow> js ''[audio] '' @ shown txt
                              | Html \<Rightarrow> js ''<div style='' @ [34]
                                         @ js ''font-style: italic; opacity: 0.65;'' @ [34]
                                         @ js ''>'' @ [34] @ shown txt @ [34] @ js ''</div>'']
                        else if t = js ''audio_asset_pointer''
                                \<or> t = js ''real_time_user_audio_video_asset_pointer''
                        then []
                        else [post (js ''[Unsupported multimodal content]'')])
                 (enumerate 0 parts))))"
    by (rule transformContent_multimodal_text)
next
  assume "content_type content \<noteq> js ''code'' \<and> content_type content \<noteq> js ''multimodal_text''"
  then show "\<exists>fragment. \<forall>p.
         transformContent fmt content metadata p processedImages imageStartIndex
           = p fragment"
    using transformContent_fragment by blast
qed

theorem post_processing_by_content_type_witness:
  "transformContent Markdown exampleCode emptyMetadata (\<lambda>t. js ''<'' @ t @ js ''>'') [] 0
     = js ''Code:'' @ nl @ js ''```'' @ nl @ js ''print(1)'' @ nl @ js ''```''
   \<and> transformContent Html exampleQuote emptyMetadata (\<lambda>t. js ''<'' @ t @ js ''>'') [] 0
       = js ''<> A title>''
   \<and> transformContent Markdown exampleMultimodal emptyMetadata (\<lambda>t. js ''<'' @ t @ js ''>'') [] 0
       = js ''<look>'' @ nl @ js ''[IMAGE_0]'' @ nl @ js ''[audio] spoken''
   \<and> (\<exists>fragment. \<forall>p. transformContent Html exampleQuote emptyMetadata p [] 0 = p fragment)"
  using post_processing_by_content_type [of exampleCode Markdown emptyMetadata
          "\<lambda>t. js ''<'' @ t @ js ''>''" "[]" 0]
    post_processing_by_content_type [of exampleQuote Html emptyMetadata
          "\<lambda>t. js ''<'' @ t @ js ''>''" "[]" 0]
    post_processing_by_content_type [of exampleMultimodal Markdown emptyMetadata
          "\<lambda>t. js ''<'' @ t @ js ''>''" "[]" 0]
  by (simp add: exampleCode_def exampleQuote_def exampleMultimodal_def shown_def js_def nl_def
        enumerate_eq_zip upt_conv_Cons imageRef_def nth_opt_def dec_small del: upt_Suc)

section \<open>Facts about the matcher\<close>

lemma scan_end: "run re (p, [], []) = [] \<Longrightarrow> scan re p [] = []"
  by (simp add: scan_Nil)

lemma scan_skip: "run re (p, x # xs, []) = [] \<Longrightarrow> scan re p (x # xs) = C x # scan re (x # p) xs"
  by (simp add: scan_Cons)

lemma scan_match:
  assumes "run re (p, m @ s, []) = (p', s, g) # rest" and "m \<noteq> []"
  shows "scan re p (m @ s) = M m g # scan re p' s"
  using assms by (subst scan.simps) simp

lemma upt_1_Suc_Suc: "[Suc 0..<Suc (Suc n)] = Suc 0 # map Suc [Suc 0..<Suc n]"
  by (simp add: upt_conv_Cons map_Suc_upt del: upt_Suc)

lemma steps_prefix:
  "\<forall>c\<in>set a. P c \<Longrightarrow>
   steps P p (a @ b)
     = map (\<lambda>k. (rev (take k a) @ p, drop k a @ b)) [1..<Suc (length a)] @ steps P (rev a @ p) b"
proof (induction a arbitrary: p)
  case Nil
  then show ?case by simp
next
  case (Cons x a)
  have "steps P p ((x # a) @ b) = (x # p, a @ b) # steps P (x # p) (a @ b)"
    using Cons.prems by simp
  also have "steps P (x # p) (a @ b)
      = map (\<lambda>k. (rev (take k a) @ x # p, drop k a @ b)) [1..<Suc (length a)]
        @ steps P (rev a @ x # p) b"
    using Cons.IH [of "x # p"] Cons.prems by simp
  finally have "steps P p ((x # a) @ b)
      = (x # p, a @ b) # map (\<lambda>k. (rev (take k a) @ x # p, drop k a @ b)) [Suc 0..<Suc (length a)]
        @ steps P (rev a @ x # p) b"
    by simp
  moreover have "map (\<lambda>k. (rev (take k (x # a)) @ p, drop k (x # a) @ b)) [Suc 0..<Suc (Suc (length a))]
      = (x # p, a @ b) # map (\<lambda>k. (rev (take k a) @ x # p, drop k a @ b)) [Suc 0..<Suc (length a)]"
    by (subst upt_1_Suc_Suc) (simp add: comp_def del: upt_Suc)
  ultimately show ?case
    by (simp del: upt_Suc)
qed

lemma steps_stop: "(case b of [] \<Rightarrow> True | c # _ \<Rightarrow> \<not> P c) \<Longrightarrow> steps P p b = []"
  by (cases b) simp_all

lemma concat_map_skip:
  "\<forall>x\<in>set xs. f x = [] \<Longrightarrow> concat (map f (xs @ ys)) = concat (map f ys)"
  by (induction xs) simp_all


text \<open>A greedy run over a block of matching units that ends at a unit outside the class.\<close>

lemma run_PlusG_block:
  assumes "\<forall>c\<in>set a. P c" and "a \<noteq> []" and "case b of [] \<Rightarrow> True | c # _ \<Rightarrow> \<not> P c"
  shows "\<exists>rest. run (PlusG P) (p, a @ b, g) = (rev a @ p, b, g) # rest"
proof -
  obtain n where n: "length a = Suc n"
    using assms(2) by (cases a) simp_all
  have "steps P p (a @ b) = map (\<lambda>k. (rev (take k a) @ p, drop k a @ b)) [1..<Suc (length a)]"
    using steps_prefix [OF assms(1)] steps_stop [OF assms(3)] by simp
  then have "steps P p (a @ b)
      = map (\<lambda>k. (rev (take k a) @ p, drop k a @ b)) [1..<Suc n] @ [(rev a @ p, b)]"
    using n by simp
  then show ?thesis
    by simp
qed

text \<open>A lazy run: the states after one unit, two units, and so on.\<close>

lemma run_PlusL_block:
  assumes "\<forall>c\<in>set a. P c"
  shows "\<exists>rest. run (PlusL P) (p, a @ b, g)
           = map (\<lambda>k. (rev (take k a) @ p, drop k a @ b, g)) [1..<Suc (length a)] @ rest"
  using steps_prefix [OF assms, of p b] by (simp add: comp_def)

lemma run_Grp:
  "run (Grp a) (p, s, g)
     = map (\<lambda>st. (fst st, fst (snd st), snd (snd st) @ [take (length s - length (fst (snd st))) s]))
         (run a (p, s, g))"
  by (simp add: case_prod_beta)

lemma run_Seq_first:
  assumes "run a st = x # xs" and "run b x = y # ys"
  shows "\<exists>rest. run (Seq a b) st = y # rest"
  using assms by simp

lemma run_Lit_hit: "run (Lit c) (p, c # s, g) = [(c # p, s, g)]"
  by simp

lemma run_Seq_Lit_hit: "run (Seq (Lit c) r) (p, c # s, g) = run r (c # p, s, g)"
  by simp

lemma run_Seq_Lit_miss: "x \<noteq> c \<Longrightarrow> run (Seq (Lit c) r) (p, x # s, g) = []"
  by simp

lemma run_Seq_Lit_end: "run (Seq (Lit c) r) (p, [], g) = []"
  by simp


lemma lazy_until:
  assumes cls: "\<forall>c\<in>set label. P c" and ne: "label \<noteq> []"
    and early: "\<And>k. 0 < k \<Longrightarrow> k < length label \<Longrightarrow>
                  run b (rev (take k label) @ p, drop k label @ t, g @ [take k label]) = []"
    and hit: "run b (rev label @ p, t, g @ [label]) = y # ys"
  shows "\<exists>rest. run (Seq (Grp (PlusL P)) b) (p, label @ t, g) = y # rest"
proof -
  let ?h = "\<lambda>k. (rev (take k label) @ p, drop k label @ t, g @ [take k label])"
  obtain n where n: "length label = Suc n"
    using ne by (cases label) simp_all
  obtain rest0 where "run (PlusL P) (p, label @ t, g)
      = map (\<lambda>k. (rev (take k label) @ p, drop k label @ t, g)) [1..<Suc (length label)] @ rest0"
    using run_PlusL_block [OF cls] by blast
  moreover have "map (\<lambda>st. (fst st, fst (snd st),
                       snd (snd st) @ [take (length (label @ t) - length (fst (snd st))) (label @ t)]))
        (map (\<lambda>k. (rev (take k label) @ p, drop k label @ t, g)) [1..<Suc (length label)])
      = map ?h [1..<Suc (length label)]"
    by (auto simp: comp_def)
  ultimately have "run (Grp (PlusL P)) (p, label @ t, g)
      = map ?h [1..<Suc (length label)]
        @ map (\<lambda>st. (fst st, fst (snd st),
                       snd (snd st) @ [take (length (label @ t) - length (fst (snd st))) (label @ t)]))
            rest0"
    unfolding run_Grp by (simp only: map_append)
  then obtain rest1 where grp: "run (Grp (PlusL P)) (p, label @ t, g)
      = map ?h [1..<Suc n] @ ?h (Suc n) # rest1"
    using n by simp
  have "\<forall>x\<in>set (map ?h [1..<Suc n]). run b x = []"
    using early n by auto
  then have skip: "concat (map (run b) (map ?h [1..<Suc n] @ ?h (Suc n) # rest1))
      = concat (map (run b) (?h (Suc n) # rest1))"
    by (rule concat_map_skip)
  have last: "?h (Suc n) = (rev label @ p, t, g @ [label])"
    using n by simp
  have "run (Seq (Grp (PlusL P)) b) (p, label @ t, g)
      = concat (map (run b) (run (Grp (PlusL P)) (p, label @ t, g)))"
    by (simp only: run.simps)
  also have "\<dots> = concat (map (run b) (map ?h [1..<Suc n] @ ?h (Suc n) # rest1))"
    by (simp only: grp)
  also have "\<dots> = concat (map (run b) (?h (Suc n) # rest1))"
    by (rule skip)
  also have "\<dots> = y # (ys @ concat (map (run b) rest1))"
    unfolding last using hit by simp
  finally show ?thesis
    by (rule exI)
qed

lemma dec_digits: "\<forall>c\<in>set (dec n). is_digit c"
proof (induction n rule: dec.induct)
  case (1 n)
  show ?case
  proof (cases "n < 10")
    case True
    then show ?thesis
      by (subst dec.simps) (simp add: is_digit_def)
  next
    case False
    have "n mod 10 < 10"
      by simp
    then have "is_digit (48 + n mod 10)"
      unfolding is_digit_def by linarith
    then show ?thesis
      using False "1.IH" by (subst dec.simps) simp
  qed
qed

lemma close_miss:
  assumes "12305 \<notin> set l" and "l \<noteq> []"
  shows "run (Seq (Lit 41) (Lit 12305)) (p, l @ 41 # 12305 # s, g) = []"
proof (cases l)
  case Nil
  then show ?thesis using assms by simp
next
  case (Cons c l')
  then show ?thesis
    using assms by (cases l') auto
qed

lemma footNoteMark_match:
  assumes digs: "\<forall>c\<in>set digits. is_digit c" and dne: "digits \<noteq> []"
    and ne: "label \<noteq> []" and cls: "\<forall>c\<in>set label. dot c" and closer: "12305 \<notin> set label"
  shows "\<exists>rest. run footNoteMarkRegex (p, footNoteMark digits label @ s, [])
           = (rev (footNoteMark digits label) @ p, s, [digits, label]) # rest"
proof -
  let ?close = "Seq (Lit 41) (Lit 12305)"
  let ?r3 = "Seq (Grp (PlusL dot)) ?close"
  let ?r2 = "Seq (Lit 8224) (Seq (Lit 40) ?r3)"
  let ?t = "41 # 12305 # s"
  let ?p3 = "40 # 8224 # rev (digits) @ 12304 # p"
  have early: "run ?close (rev (take k label) @ ?p3, drop k label @ ?t, [digits] @ [take k label]) = []"
    if "0 < k" and "k < length label" for k
  proof -
    have "12305 \<notin> set (drop k label)"
      using closer by (meson in_set_dropD)
    moreover have "drop k label \<noteq> []"
      using that by simp
    ultimately show ?thesis
      by (rule close_miss)
  qed
  have hit: "run ?close (rev label @ ?p3, ?t, [digits] @ [label])
      = (12305 # 41 # rev label @ ?p3, s, [digits, label]) # []"
    by simp
  obtain rest3 where r3: "run ?r3 (?p3, label @ ?t, [digits])
      = (12305 # 41 # rev label @ ?p3, s, [digits, label]) # rest3"
    using lazy_until [OF cls ne early hit] by blast
  have r2: "run ?r2 (rev (digits) @ 12304 # p, 8224 # 40 # label @ ?t, [digits])
      = (12305 # 41 # rev label @ ?p3, s, [digits, label]) # rest3"
    using r3 by simp
  have "case 8224 # 40 # label @ ?t of [] \<Rightarrow> True | c # _ \<Rightarrow> \<not> is_digit c"
    by (simp add: is_digit_def)
  then obtain rest1 where "run (PlusG is_digit) (12304 # p, digits @ 8224 # 40 # label @ ?t, [])
      = (rev (digits) @ 12304 # p, 8224 # 40 # label @ ?t, []) # rest1"
    using run_PlusG_block [OF digs dne] by blast
  then have "run (Grp (PlusG is_digit)) (12304 # p, digits @ 8224 # 40 # label @ ?t, [])
      = (rev (digits) @ 12304 # p, 8224 # 40 # label @ ?t, [digits])
        # map (\<lambda>st. (fst st, fst (snd st),
                      snd (snd st) @ [take (length (digits @ 8224 # 40 # label @ ?t) - length (fst (snd st)))
                                         (digits @ 8224 # 40 # label @ ?t)])) rest1"
    unfolding run_Grp by simp
  then obtain rest where "run (Seq (Grp (PlusG is_digit)) ?r2)
        (12304 # p, digits @ 8224 # 40 # label @ ?t, [])
      = (12305 # 41 # rev label @ ?p3, s, [digits, label]) # rest"
    using run_Seq_first [OF _ r2] by blast
  then show ?thesis
    by (simp add: footNoteMarkRegex_def footNoteMark_def)
qed


section \<open>Scanning does not depend on the text before, without anchors\<close>

lemma list_all2_concat_map:
  assumes "list_all2 R xs ys" and "\<And>x y. R x y \<Longrightarrow> list_all2 R (f x) (f y)"
  shows "list_all2 R (concat (map f xs)) (concat (map f ys))"
  using assms(1)
proof (induction rule: list_all2_induct)
  case Nil
  then show ?case by simp
next
  case (Cons x xs y ys)
  then show ?case
    using assms(2) by (simp add: list_all2_appendI)
qed

lemma steps_same_rest: "list_all2 (\<lambda>a b. snd a = snd b) (steps P p s) (steps P q s)"
  by (induction s arbitrary: p q) simp_all

lemma run_unanchored:
  "\<not> anchored re \<Longrightarrow> snd st1 = snd st2 \<Longrightarrow>
   list_all2 (\<lambda>a b. snd a = snd b) (run re st1) (run re st2)"
proof (induction re arbitrary: st1 st2)
  case (Lit c)
  then show ?case
    by (cases st1; cases st2) (auto split: list.splits)
next
  case (Cls P)
  then show ?case
    by (cases st1; cases st2) (auto split: list.splits)
next
  case (Seq a b)
  have "list_all2 (\<lambda>a b. snd a = snd b) (run a st1) (run a st2)"
    using Seq by simp
  then have "list_all2 (\<lambda>a b. snd a = snd b)
      (concat (map (run b) (run a st1))) (concat (map (run b) (run a st2)))"
    using Seq by (intro list_all2_concat_map) simp_all
  then show ?case by simp
next
  case (Alt a b)
  then show ?case
    by (simp add: list_all2_appendI)
next
  case (PlusG P)
  obtain p s g q where st: "st1 = (p, s, g)" "st2 = (q, s, g)"
    using PlusG by (cases st1; cases st2) auto
  have "list_all2 (\<lambda>a b. snd a = snd b)
      (map (\<lambda>(p', s'). (p', s', g)) (steps P p s)) (map (\<lambda>(p', s'). (p', s', g)) (steps P q s))"
    using steps_same_rest [of P p s q] by (simp add: list_all2_map1 list_all2_map2 case_prod_beta)
  then show ?case
    unfolding st by simp
next
  case (PlusL P)
  obtain p s g q where st: "st1 = (p, s, g)" "st2 = (q, s, g)"
    using PlusL by (cases st1; cases st2) auto
  have "list_all2 (\<lambda>a b. snd a = snd b)
      (map (\<lambda>(p', s'). (p', s', g)) (steps P p s)) (map (\<lambda>(p', s'). (p', s', g)) (steps P q s))"
    using steps_same_rest [of P p s q] by (simp add: list_all2_map1 list_all2_map2 case_prod_beta)
  then show ?case
    unfolding st by simp
next
  case (Grp a)
  obtain p s g q where st: "st1 = (p, s, g)" "st2 = (q, s, g)"
    using Grp by (cases st1; cases st2) auto
  have "list_all2 (\<lambda>a b. snd a = snd b) (run a (p, s, g)) (run a (q, s, g))"
    using Grp by simp
  then have "list_all2
      (\<lambda>x y. fst (snd x) = fst (snd y) \<and> snd (snd x) = snd (snd y)
            \<and> take (length s - length (fst (snd x))) s = take (length s - length (fst (snd y))) s)
      (run a (p, s, g)) (run a (q, s, g))"
    by (rule list_all2_mono) (auto simp: prod_eq_iff)
  then show ?case
    unfolding st run_Grp by (simp add: list_all2_map1 list_all2_map2)
next
  case Bol
  then show ?case by simp
next
  case Eol
  then show ?case
    by (cases st1; cases st2) (auto split: list.splits)
qed

lemma scan_unanchored:
  assumes "\<not> anchored re"
  shows "scan re p s = scan re q s"
proof (induction s arbitrary: p q rule: length_induct)
  case (1 s)
  have rel: "list_all2 (\<lambda>a b. snd a = snd b) (run re (p, s, [])) (run re (q, s, []))"
    using assms by (rule run_unanchored) simp
  have tail: "(case s of [] \<Rightarrow> [] | x # xs \<Rightarrow> C x # scan re (x # p) xs)
      = (case s of [] \<Rightarrow> [] | x # xs \<Rightarrow> C x # scan re (x # q) xs)"
    using "1.IH" by (cases s) auto
  show ?case
  proof (cases "run re (p, s, [])")
    case Nil
    then have "run re (q, s, []) = []"
      using rel by simp
    then show ?thesis
      using Nil tail by (subst scan.simps, subst (2) scan.simps) simp
  next
    case (Cons st rest)
    then obtain st' rest' where q: "run re (q, s, []) = st' # rest'" and same: "snd st = snd st'"
      using rel by (auto simp: list_all2_Cons1)
    obtain p' s' g where st: "st = (p', s', g)"
      by (cases st) auto
    then obtain q' where st': "st' = (q', s', g)"
      using same by (cases st') auto
    have "scan re p' s' = scan re q' s'" if "length s' < length s"
      using "1.IH" that by simp
    then show ?thesis
      using Cons q st st' tail by (subst scan.simps, subst (2) scan.simps) simp
  qed
qed


section \<open>Footnotes\<close>

lemma footNoteMarkRegex_unanchored: "\<not> anchored footNoteMarkRegex"
  by (simp add: footNoteMarkRegex_def)

lemma footNote_scan_plain:
  "12304 \<notin> set pre \<Longrightarrow>
   scan footNoteMarkRegex p (pre @ rest) = map C pre @ scan footNoteMarkRegex (rev pre @ p) rest"
proof (induction pre arbitrary: p)
  case Nil
  then show ?case by simp
next
  case (Cons x pre)
  have "run footNoteMarkRegex (p, x # pre @ rest, []) = []"
    using Cons.prems by (simp add: footNoteMarkRegex_def)
  then have "scan footNoteMarkRegex p (x # pre @ rest) = C x # scan footNoteMarkRegex (x # p) (pre @ rest)"
    by (rule scan_skip)
  then show ?case
    using Cons by simp
qed

lemma emit_plain: "emit f k (map C pre @ ts) = pre @ emit f k ts"
  by (induction pre) simp_all

lemma emit_no_index: "emit (\<lambda>_. h) k ts = emit (\<lambda>_. h) 0 ts"
proof (induction ts arbitrary: k)
  case Nil
  then show ?case by simp
next
  case (Cons t ts)
  show ?case
  proof (cases t)
    case (C x)
    then show ?thesis using Cons [of k] by simp
  next
    case (M m g)
    then show ?thesis using Cons [of "Suc k"] Cons [of "Suc 0"] by simp
  qed
qed

lemma citedBy_plain: "citedBy metadata (map C pre @ ts) = citedBy metadata ts"
  by (induction pre) simp_all

text \<open>The tokens of a text whose first citation mark is well formed.\<close>

lemma footNote_tokens:
  assumes "12304 \<notin> set pre" and "\<forall>c\<in>set digits. is_digit c" and "digits \<noteq> []"
    and "label \<noteq> []" and "\<forall>c\<in>set label. dot c" and "12305 \<notin> set label"
  shows "scan footNoteMarkRegex [] (pre @ footNoteMark digits label @ post)
           = map C pre @ M (footNoteMark digits label) [digits, label] # scan footNoteMarkRegex [] post"
proof -
  obtain rest where "run footNoteMarkRegex (rev pre @ [], footNoteMark digits label @ post, [])
      = (rev (footNoteMark digits label) @ rev pre @ [], post, [digits, label]) # rest"
    using footNoteMark_match [OF assms(2-6)] by blast
  moreover have "footNoteMark digits label \<noteq> []"
    by (simp add: footNoteMark_def)
  ultimately have "scan footNoteMarkRegex (rev pre @ []) (footNoteMark digits label @ post)
      = M (footNoteMark digits label) [digits, label]
        # scan footNoteMarkRegex (rev (footNoteMark digits label) @ rev pre @ []) post"
    by (rule scan_match)
  also have "scan footNoteMarkRegex (rev (footNoteMark digits label) @ rev pre @ []) post
      = scan footNoteMarkRegex [] post"
    using footNoteMarkRegex_unanchored by (rule scan_unanchored)
  finally show ?thesis
    using footNote_scan_plain [OF assms(1), of "[]" "footNoteMark digits label @ post"] by simp
qed

section \<open>Numbers below 2 ^ 53\<close>

lemma bit_length_le: "n < 2 ^ k \<Longrightarrow> bit_length n \<le> k"
proof (induction n arbitrary: k rule: bit_length.induct)
  case (1 n)
  show ?case
  proof (cases "n = 0")
    case True
    then show ?thesis by (subst bit_length.simps) simp
  next
    case False
    then obtain k' where k: "k = Suc k'"
      using "1.prems" by (cases k) auto
    then have "n div 2 < 2 ^ k'"
      using "1.prems" by auto
    then have "bit_length (n div 2) \<le> k'"
      using "1.IH" False by blast
    then show ?thesis
      using False k by (subst bit_length.simps) simp
  qed
qed

lemma bit_length_ge: "2 ^ k \<le> n \<Longrightarrow> k < bit_length n"
proof (induction n arbitrary: k rule: bit_length.induct)
  case (1 n)
  have n: "n \<noteq> 0"
    using "1.prems" by (cases "n = 0") auto
  show ?case
  proof (cases k)
    case 0
    then show ?thesis using n by (subst bit_length.simps) simp
  next
    case (Suc k')
    then have "2 ^ k' \<le> n div 2"
      using "1.prems" by auto
    then have "k' < bit_length (n div 2)"
      using "1.IH" n by blast
    then show ?thesis
      using n Suc by (subst bit_length.simps) simp
  qed
qed

lemma bit_length_upper: "n < 2 ^ bit_length n"
  by (metis bit_length_ge not_le_imp_less order_less_irrefl)

lemma toDouble_small: "n < 2 ^ 53 \<Longrightarrow> toDouble n = Finite n"
proof -
  assume small: "n < 2 ^ 53"
  then have "bit_length n - 53 = 0"
    using bit_length_le [of n 53] by simp
  moreover have "n < 2 ^ 1024"
    using small by (rule less_le_trans) simp
  ultimately show ?thesis
    by (simp add: toDouble_def Let_def)
qed

lemma toDouble_large:
  assumes "2 ^ 53 \<le> n" and "toDouble n = Finite x"
  shows "2 ^ 53 \<le> x"
proof -
  define e where "e = bit_length n - 53"
  define q where "q = n div 2 ^ e"
  have bl: "53 < bit_length n"
    using assms(1) by (rule bit_length_ge)
  then have e: "bit_length n = e + 53" and "0 < e"
    by (simp_all add: e_def)
  have "2 ^ (bit_length n - 1) \<le> n"
  proof (rule ccontr)
    assume "\<not> 2 ^ (bit_length n - 1) \<le> n"
    then have "bit_length n \<le> bit_length n - 1"
      using bit_length_le [of n "bit_length n - 1"] by simp
    then show False
      using bl by simp
  qed
  then have "2 ^ (e + 52) \<le> n"
    by (simp add: e add.commute)
  then have "2 ^ 52 * 2 ^ e \<le> n"
    by (simp add: power_add mult.commute)
  then have "2 ^ 52 \<le> q"
    unfolding q_def by (simp add: less_eq_div_iff_mult_less_eq)
  then have "2 ^ 52 * 2 ^ e \<le> q * 2 ^ e"
    by simp
  moreover have "(2::nat) ^ 53 \<le> 2 ^ 52 * 2 ^ e"
  proof -
    have "(2::nat) ^ 1 \<le> 2 ^ e"
      using \<open>0 < e\<close> by (intro power_increasing) simp_all
    then show ?thesis by simp
  qed
  ultimately have low: "2 ^ 53 \<le> q * 2 ^ e"
    by (rule order_trans [rotated])
  have "x = q * 2 ^ e \<or> x = (q + 1) * 2 ^ e"
    using assms(2) unfolding toDouble_def Let_def e_def [symmetric] q_def [symmetric]
    by (auto split: if_splits)
  then show ?thesis
    using low by auto
qed

lemma toDouble_exact: "x < 2 ^ 53 \<Longrightarrow> toDouble v = Finite x \<Longrightarrow> v = x"
  using toDouble_small [of v] toDouble_large [of v x] by (cases "v < 2 ^ 53") auto

lemma nearest_sound: "nearest x p = Some v \<Longrightarrow> toDouble v = Finite x"
  by (auto simp: nearest_def Let_def split: if_splits)

lemma shortest_small: "x < 2 ^ 53 \<Longrightarrow> shortest x j = x"
proof (induction j)
  case 0
  then show ?case by simp
next
  case (Suc j)
  show ?case
  proof (cases "nearest x (10 ^ Suc j)")
    case None
    then show ?thesis using Suc by simp
  next
    case (Some v)
    then have "toDouble v = Finite x"
      by (rule nearest_sound)
    then have "v = x"
      using Suc.prems by (intro toDouble_exact)
    then show ?thesis using Some by simp
  qed
qed

lemma length_dec: "n < 10 ^ Suc k \<Longrightarrow> length (dec n) \<le> Suc k"
proof (induction k arbitrary: n)
  case 0
  then show ?case by (subst dec.simps) simp
next
  case (Suc k)
  show ?case
  proof (cases "n < 10")
    case True
    then show ?thesis by (subst dec.simps) simp
  next
    case False
    have "n div 10 < 10 ^ Suc k"
      using Suc.prems by auto
    then have "length (dec (n div 10)) \<le> Suc k"
      by (rule Suc.IH)
    then show ?thesis
      using False by (subst dec.simps) simp
  qed
qed

lemma numberToString_small: "x < 2 ^ 53 \<Longrightarrow> numberToString (Finite x) = dec x"
proof -
  assume small: "x < 2 ^ 53"
  have "(2::nat) ^ 53 \<le> 10 ^ Suc 20"
    by simp
  then have "x < 10 ^ Suc 20"
    using small by (rule less_le_trans [rotated])
  then have "length (dec x) \<le> 21"
    using length_dec [of x 20] by simp
  then show ?thesis
    using small by (simp add: numberToString_def shortest_small Let_def)
qed

lemma bit_length_numeral:
  "bit_length (numeral k) = Suc (bit_length (numeral k div 2))"
  by (subst bit_length.simps) simp

lemma bit_length_0: "bit_length 0 = 0"
  by (subst bit_length.simps) simp

lemma bit_length_1: "bit_length (Suc 0) = Suc 0"
  by (subst bit_length.simps) (simp add: bit_length_0)

lemma toNumber_far: "toNumber (js ''99999999999999999999'') = Finite 100000000000000000000"
  by (simp add: bit_length_numeral bit_length_0 bit_length_1 toDouble_def toNumber_def
        to_number_def Let_def js_def)

lemma toNumber_3: "toNumber [51] = Finite 3" "toNumber [49] = Finite 1"
  by (simp_all add: toNumber_def to_number_def toDouble_small)

section \<open>Footnotes\<close>

lemma join_Cons: "join sep (x # xs) = (if xs = [] then x else x @ sep @ join sep xs)"
  by (cases xs) simp_all

lemma footNotes_of_empty:
  "footNoteOutput metadata [] = []" "footNoteCitations metadata [] = []"
  "transformFootNotes_html metadata [] = []" "transformFootNotes_md metadata [] = nl @ nl"
  by (simp_all add: footNoteOutput_def footNoteCitations_def transformFootNotes_html_def
        transformFootNotes_md_def replace_g_def scan_Nil footNoteMarkRegex_def)

text \<open>
  Claim C7 says that a citation mark whose index has a citation is rewritten, wherever
  it stands, and that the index is matched as the integer it is. Neither holds. After
  a stray opening \<open>\<lbrakk>1\<dagger>(\<close> the lazy label of the earlier match runs up to the closing
  bracket of the cited mark \<open>\<lbrakk>3\<dagger>(SourceName)\<rbrakk>\<close>, and with no citation of message 1 the
  whole text is copied by both steps. And the index is compared as a Number: the mark
  with index 99999999999999999999 is rewritten for a citation of 1e20.
\<close>

theorem stray_bracket_hides_cited_mark:
  "transformFootNotes_md citedMetadata
      ([12304, 49, 8224, 40, 120, 32] @ footNoteMark (js ''3'') (js ''SourceName''))
     = [12304, 49, 8224, 40, 120, 32] @ footNoteMark (js ''3'') (js ''SourceName'') @ nl @ nl
   \<and> transformFootNotes_html citedMetadata
        ([12304, 49, 8224, 40, 120, 32] @ footNoteMark (js ''3'') (js ''SourceName''))
       = [12304, 49, 8224, 40, 120, 32] @ footNoteMark (js ''3'') (js ''SourceName'')
   \<and> cited_message_idx farCitation \<noteq> Some (Finite 99999999999999999999)
   \<and> footNoteOutput farMetadata (footNoteMark (js ''99999999999999999999'') (js ''S''))
       = js ''[^99999999999999999999]''
   \<and> footNoteCitations farMetadata (footNoteMark (js ''99999999999999999999'') (js ''S''))
       = [farCitation]
   \<and> transformFootNotes_html farMetadata (footNoteMark (js ''99999999999999999999'') (js ''S''))
       = []"
proof -
  have far: "toNumber [57, 57, 57, 57, 57, 57, 57, 57, 57, 57, 57, 57, 57, 57, 57, 57, 57, 57, 57, 57]
      = Finite 100000000000000000000"
    using toNumber_far by (simp add: js_def)
  have stray: "transformFootNotes_md citedMetadata
      ([12304, 49, 8224, 40, 120, 32] @ footNoteMark (js ''3'') (js ''SourceName''))
     = [12304, 49, 8224, 40, 120, 32] @ footNoteMark (js ''3'') (js ''SourceName'') @ nl @ nl"
    "transformFootNotes_html citedMetadata
        ([12304, 49, 8224, 40, 120, 32] @ footNoteMark (js ''3'') (js ''SourceName''))
       = [12304, 49, 8224, 40, 120, 32] @ footNoteMark (js ''3'') (js ''SourceName'')"
    by (simp_all add: ev transformFootNotes_md_def transformFootNotes_html_def footNoteOutput_def
          footNoteCitations_def footNoteMark_def footNoteMarkRegex_def findCitation_def
          citedMetadata_def exampleCitation_def toNumber_3 is_digit_def dot_def
          is_line_terminator_def nl_def)
  have big: "footNoteOutput farMetadata (footNoteMark (js ''99999999999999999999'') (js ''S''))
       = js ''[^99999999999999999999]''"
    "footNoteCitations farMetadata (footNoteMark (js ''99999999999999999999'') (js ''S''))
       = [farCitation]"
    "transformFootNotes_html farMetadata (footNoteMark (js ''99999999999999999999'') (js ''S''))
       = []"
    by (simp_all add: ev transformFootNotes_html_def footNoteOutput_def
          footNoteCitations_def footNoteMark_def footNoteMarkRegex_def findCitation_def
          farMetadata_def farCitation_def far is_digit_def dot_def
          is_line_terminator_def)
  have "cited_message_idx farCitation \<noteq> Some (Finite 99999999999999999999)"
    by (simp add: farCitation_def)
  then show ?thesis
    using stray big by simp
qed

text \<open>
  Claim C7 as amended. Take a text whose first citation mark is \<open>\<lbrakk>digits\<dagger>(label)\<rbrakk>\<close>,
  written with the lenticular brackets 12304 and 12305: no opening bracket before it,
  one decimal digit or more, a label that is not empty and holds neither a line
  terminator nor the closing bracket. If the metadata has a citation whose
  \<open>cited_message_idx\<close> is the Number of the digits, the Markdown step puts \<open>[^digits]\<close>
  in the place of the mark, and the line of that citation, \<open>[^index]: title\<close> with the
  index as \<open>Number::toString\<close> prints it and \<open>No title\<close> without a title, first among the
  footnote lines that follow the output and a blank line; the HTML step deletes the
  mark and adds nothing. Without such a citation both steps copy the mark. In each case
  the text after the mark is treated as it would be alone. For an index \<open>n\<close> below
  \<open>2 ^ 53\<close> written in decimal, the Number of the digits is \<open>n\<close> and it prints as written.
\<close>

theorem footnote_marks_rewritten:
  assumes "12304 \<notin> set pre" and "digits \<noteq> []" and "\<forall>c\<in>set digits. is_digit c"
    and "label \<noteq> []" and "\<forall>c\<in>set label. \<not> is_line_terminator c" and "12305 \<notin> set label"
  shows "(citations metadata = Some cites
            \<and> find (\<lambda>cite. cited_message_idx cite = Some (toNumber digits)) cites = Some citation
          \<longrightarrow> footNoteOutput metadata (pre @ footNoteMark digits label @ post)
                 = pre @ js ''[^'' @ digits @ js '']'' @ footNoteOutput metadata post
             \<and> footNoteCitations metadata (pre @ footNoteMark digits label @ post)
                 = citation # footNoteCitations metadata post
             \<and> transformFootNotes_md metadata (pre @ footNoteMark digits label @ post)
                 = pre @ js ''[^'' @ digits @ js '']'' @ footNoteOutput metadata post @ nl @ nl
                   @ join nl ((js ''[^'' @ numberToString (toNumber digits) @ js '']: ''
                               @ (case cite_title citation of None \<Rightarrow> js ''No title'' | Some t \<Rightarrow> t))
                              # map footNoteLine (footNoteCitations metadata post))
             \<and> transformFootNotes_html metadata (pre @ footNoteMark digits label @ post)
                 = pre @ transformFootNotes_html metadata post)
       \<and> (citations metadata = None
            \<or> citations metadata = Some cites
              \<and> find (\<lambda>cite. cited_message_idx cite = Some (toNumber digits)) cites = None
          \<longrightarrow> transformFootNotes_md metadata (pre @ footNoteMark digits label @ post)
                 = pre @ footNoteMark digits label @ transformFootNotes_md metadata post
             \<and> transformFootNotes_html metadata (pre @ footNoteMark digits label @ post)
                 = pre @ footNoteMark digits label @ transformFootNotes_html metadata post)
       \<and> (n < 2 ^ 53
          \<longrightarrow> dec n \<noteq> [] \<and> (\<forall>c\<in>set (dec n). is_digit c)
             \<and> toNumber (dec n) = Finite n \<and> numberToString (toNumber (dec n)) = dec n)"
proof -
  let ?md = "\<lambda>match g. case findCitation metadata (hd g) of
                          None \<Rightarrow> match | Some _ \<Rightarrow> js ''[^'' @ hd g @ js '']''"
  let ?html = "\<lambda>match g. case findCitation metadata (hd g) of None \<Rightarrow> match | Some _ \<Rightarrow> []"
  let ?post = "scan footNoteMarkRegex [] post"
  have dots: "\<forall>c\<in>set label. dot c"
    using assms(5) by (simp add: dot_def)
  have toks: "scan footNoteMarkRegex [] (pre @ footNoteMark digits label @ post)
      = map C pre @ M (footNoteMark digits label) [digits, label] # ?post"
    using footNote_tokens [OF assms(1) assms(3) assms(2) assms(4) dots assms(6)] .
  have out: "footNoteOutput metadata (pre @ footNoteMark digits label @ post)
      = pre @ ?md (footNoteMark digits label) [digits, label] @ footNoteOutput metadata post"
    unfolding footNoteOutput_def replace_g_def toks
    by (simp add: emit_plain emit_no_index [of _ "Suc 0"])
  have cited: "footNoteCitations metadata (pre @ footNoteMark digits label @ post)
      = (case findCitation metadata digits of None \<Rightarrow> [] | Some c \<Rightarrow> [c])
        @ footNoteCitations metadata post"
    unfolding footNoteCitations_def toks
    by (simp add: citedBy_plain split: option.splits)
  have html: "transformFootNotes_html metadata (pre @ footNoteMark digits label @ post)
      = pre @ ?html (footNoteMark digits label) [digits, label] @ transformFootNotes_html metadata post"
    unfolding transformFootNotes_html_def replace_g_def toks
    by (simp add: emit_plain emit_no_index [of _ "Suc 0"])
  show ?thesis
  proof (intro conjI impI)
    assume "citations metadata = Some cites
      \<and> find (\<lambda>cite. cited_message_idx cite = Some (toNumber digits)) cites = Some citation"
    then have found: "findCitation metadata digits = Some citation"
      by (simp add: findCitation_def)
    then have idx: "cited_message_idx citation = Some (toNumber digits)"
      unfolding findCitation_def by (auto split: option.splits dest: find_Some_iff [THEN iffD1])
    show o: "footNoteOutput metadata (pre @ footNoteMark digits label @ post)
        = pre @ js ''[^'' @ digits @ js '']'' @ footNoteOutput metadata post"
      unfolding out using found by simp
    show c: "footNoteCitations metadata (pre @ footNoteMark digits label @ post)
        = citation # footNoteCitations metadata post"
      unfolding cited using found by simp
    show "transformFootNotes_md metadata (pre @ footNoteMark digits label @ post)
        = pre @ js ''[^'' @ digits @ js '']'' @ footNoteOutput metadata post @ nl @ nl
          @ join nl ((js ''[^'' @ numberToString (toNumber digits) @ js '']: ''
                      @ (case cite_title citation of None \<Rightarrow> js ''No title'' | Some t \<Rightarrow> t))
                     # map footNoteLine (footNoteCitations metadata post))"
      unfolding transformFootNotes_md_def Let_def o c using idx
      by (simp add: footNoteLine_def)
    show "transformFootNotes_html metadata (pre @ footNoteMark digits label @ post)
        = pre @ transformFootNotes_html metadata post"
      unfolding html using found by simp
  next
    assume "citations metadata = None
      \<or> citations metadata = Some cites
        \<and> find (\<lambda>cite. cited_message_idx cite = Some (toNumber digits)) cites = None"
    then have none: "findCitation metadata digits = None"
      by (auto simp: findCitation_def)
    show "transformFootNotes_md metadata (pre @ footNoteMark digits label @ post)
        = pre @ footNoteMark digits label @ transformFootNotes_md metadata post"
      unfolding transformFootNotes_md_def Let_def out cited using none by simp
    show "transformFootNotes_html metadata (pre @ footNoteMark digits label @ post)
        = pre @ footNoteMark digits label @ transformFootNotes_html metadata post"
      unfolding html using none by simp
  next
    show "dec n \<noteq> []"
      by (rule dec_not_Nil)
    show "\<forall>c\<in>set (dec n). is_digit c"
      by (rule dec_digits)
  next
    assume "n < 2 ^ 53"
    then show "toNumber (dec n) = Finite n" "numberToString (toNumber (dec n)) = dec n"
      by (simp_all add: toNumber_def to_number_dec toDouble_small numberToString_small)
  qed
qed

theorem footnote_marks_rewritten_witness:
  "12304 \<notin> set (js ''Evidence '') \<and> js ''3'' \<noteq> [] \<and> list_all is_digit (js ''3'')
   \<and> js ''SourceName'' \<noteq> []
   \<and> list_all (\<lambda>c. \<not> is_line_terminator c) (js ''SourceName'')
   \<and> 12305 \<notin> set (js ''SourceName'')
   \<and> transformFootNotes_md citedMetadata (js ''Evidence '' @ footNoteMark (js ''3'') (js ''SourceName''))
       = js ''Evidence [^3]'' @ nl @ nl @ js ''[^3]: SourceName''
   \<and> transformFootNotes_html citedMetadata (js ''Evidence '' @ footNoteMark (js ''3'') (js ''SourceName''))
       = js ''Evidence ''
   \<and> transformFootNotes_md emptyMetadata (js ''Evidence '' @ footNoteMark (js ''3'') (js ''SourceName''))
       = js ''Evidence '' @ footNoteMark (js ''3'') (js ''SourceName'') @ nl @ nl
   \<and> transformFootNotes_html emptyMetadata (js ''Evidence '' @ footNoteMark (js ''3'') (js ''SourceName''))
       = js ''Evidence '' @ footNoteMark (js ''3'') (js ''SourceName'')
   \<and> toNumber (dec 3) = Finite 3 \<and> numberToString (toNumber (dec 3)) = dec 3"
  using footnote_marks_rewritten [of "js ''Evidence ''" "js ''3''" "js ''SourceName''" citedMetadata
          "[exampleCitation]" exampleCitation "[]" 3]
        footnote_marks_rewritten [of "js ''Evidence ''" "js ''3''" "js ''SourceName''" emptyMetadata
          "[]" exampleCitation "[]" 3]
  by (simp add: js_def dec_small citedMetadata_def exampleCitation_def emptyMetadata_def
        is_line_terminator_def is_digit_def footNotes_of_empty nl_def toNumber_3)

section \<open>A failed image keeps its place\<close>






section \<open>The running image index of the renderer\<close>



















section \<open>Text with a code fence\<close>

lemma is_match_scan_fence:
  "\<exists>t\<in>set (scan codeFenceRegex p (a @ 96 # 96 # 96 # b)). case t of C _ \<Rightarrow> False | M _ _ \<Rightarrow> True"
proof (induction a arbitrary: p)
  case Nil
  have "run codeFenceRegex (p, 96 # 96 # 96 # b, []) = [(96 # 96 # 96 # p, b, [])]"
    by (simp add: codeFenceRegex_def)
  then show ?case
    by (simp add: scan_Cons)
next
  case (Cons x a)
  show ?case
  proof (cases "run codeFenceRegex (p, x # a @ 96 # 96 # 96 # b, [])")
    case Nil
    then have "scan codeFenceRegex p ((x # a) @ 96 # 96 # 96 # b)
        = C x # scan codeFenceRegex (x # p) (a @ 96 # 96 # 96 # b)"
      by (simp add: scan_Cons)
    then show ?thesis
      using Cons [of "x # p"] by simp
  next
    case (Cons st sts)
    then show ?thesis
      by (cases st) (simp add: scan_Cons)
  qed
qed

lemma test_fence: "test codeFenceRegex (a @ js ''```'' @ b)"
proof -
  obtain t where t: "t \<in> set (scan codeFenceRegex [] (a @ 96 # 96 # 96 # b))"
    and m: "case t of C _ \<Rightarrow> False | M _ _ \<Rightarrow> True"
    using is_match_scan_fence by blast
  from m obtain m' g where "t = M m' g"
    by (cases t) simp_all
  then have "[g] \<in> set (map (\<lambda>t. case t of C _ \<Rightarrow> [] | M _ g \<Rightarrow> [g])
                        (scan codeFenceRegex [] (a @ 96 # 96 # 96 # b)))"
    using t by force
  then have "concat (map (\<lambda>t. case t of C _ \<Rightarrow> [] | M _ g \<Rightarrow> [g])
                        (scan codeFenceRegex [] (a @ 96 # 96 # 96 # b))) \<noteq> []"
    by fastforce
  then show ?thesis
    by (simp add: test_def match_first_def js_def split: list.splits)
qed

text \<open>
  Claim C6 says that for a text with a code fence the round trip is skipped and the
  text is not altered. The round trip is applied to every text: only the sentinels are
  left out. And the Markdown step rewrites the bracket delimiters before it looks for
  the fence, also inside the fence: with a round trip that changes nothing,
  the escaped brackets around 0 in the fenced line of \<open>exampleFence\<close> come out as
  dollar signs.
\<close>

theorem round_trip_runs_on_fenced_text:
  "test codeFenceRegex exampleFence
   \<and> \<not> (\<forall>roundTrip. mathStep_md roundTrip exampleFence = exampleFence)
   \<and> \<not> (\<forall>roundTrip. mathStep_html roundTrip exampleFence = exampleFence)
   \<and> mathStep_md (\<lambda>t. t) exampleFence = js ''```'' @ nl @ js ''a$0$'' @ nl @ js ''```''"
proof -
  have fence: "test codeFenceRegex exampleFence"
    unfolding exampleFence_def using test_fence [of "[]"] by simp
  have norm: "normalizeMath exampleFence = js ''```'' @ nl @ js ''a$0$'' @ nl @ js ''```''"
    by (simp add: exampleFence_def normalizeMath_def displayMathRegex_def ev nl_def
          is_line_terminator_def dot_def)
  have fence': "test codeFenceRegex (normalizeMath exampleFence)"
    unfolding norm using test_fence [of "[]"] by simp
  have md: "mathStep_md roundTrip exampleFence = roundTrip (normalizeMath exampleFence)" for roundTrip
    using fence' by (simp add: mathStep_md_def Let_def)
  have html: "mathStep_html roundTrip exampleFence = roundTrip exampleFence" for roundTrip
    using fence by (simp add: mathStep_html_def Let_def)
  have ne: "exampleFence \<noteq> []"
    by (simp add: exampleFence_def js_def)
  have "mathStep_md (\<lambda>t. []) exampleFence \<noteq> exampleFence"
    "mathStep_html (\<lambda>t. []) exampleFence \<noteq> exampleFence"
    using ne by (simp_all add: md html)
  then have "\<not> (\<forall>roundTrip. mathStep_md roundTrip exampleFence = exampleFence)"
    "\<not> (\<forall>roundTrip. mathStep_html roundTrip exampleFence = exampleFence)"
    by blast+
  moreover have "mathStep_md (\<lambda>t. t) exampleFence = js ''```'' @ nl @ js ''a$0$'' @ nl @ js ''```''"
    by (simp add: md norm)
  ultimately show ?thesis
    using fence by simp
qed

text \<open>
  Claim C6 as amended. A text with three backticks in a row tests as a code block. For
  such a text only the sentinels are skipped: the HTML step returns the round trip of
  the text, and the Markdown step, which tests the text after the bracket delimiters
  were rewritten, returns the round trip of the rewritten text.
\<close>

theorem code_fence_skips_only_the_sentinels:
  "test codeFenceRegex (before @ js ''```'' @ after)
   \<and> (test codeFenceRegex input \<longrightarrow> mathStep_html roundTrip input = roundTrip input)
   \<and> (test codeFenceRegex (normalizeMath input)
        \<longrightarrow> mathStep_md roundTrip input = roundTrip (normalizeMath input))"
  using test_fence by (simp add: mathStep_md_def mathStep_html_def Let_def)

theorem code_fence_skips_only_the_sentinels_witness:
  "test codeFenceRegex exampleFence
   \<and> test codeFenceRegex (normalizeMath exampleFence)
   \<and> mathStep_html (\<lambda>t. js ''<pre>'' @ t) exampleFence = js ''<pre>'' @ exampleFence
   \<and> mathStep_md (\<lambda>t. js ''<pre>'' @ t) exampleFence
       = js ''<pre>```'' @ nl @ js ''a$0$'' @ nl @ js ''```''"
proof -
  have norm: "normalizeMath exampleFence = js ''```'' @ nl @ js ''a$0$'' @ nl @ js ''```''"
    by (simp add: exampleFence_def normalizeMath_def displayMathRegex_def ev nl_def
          is_line_terminator_def dot_def)
  have "test codeFenceRegex ([] @ js ''```'' @ (nl @ js ''a'' @ [92] @ js ''[0'' @ [92] @ js '']'' @ nl @ js ''```''))"
    "test codeFenceRegex ([] @ js ''```'' @ (nl @ js ''a$0$'' @ nl @ js ''```''))"
    using code_fence_skips_only_the_sentinels by blast+
  then have "test codeFenceRegex exampleFence"
    and "test codeFenceRegex (js ''```'' @ nl @ js ''a$0$'' @ nl @ js ''```'')"
    by (simp_all add: exampleFence_def)
  then have fences: "test codeFenceRegex exampleFence" "test codeFenceRegex (normalizeMath exampleFence)"
    by (simp_all only: norm)
  then show ?thesis
    using code_fence_skips_only_the_sentinels [of "[]" "[]" exampleFence "\<lambda>t. js ''<pre>'' @ t"]
    by (simp add: norm js_def)
qed

section \<open>Spans and sentinels\<close>

lemma steps_suffix: "(p', s') \<in> set (steps P p s) \<Longrightarrow> \<exists>m. s = m @ s'"
proof (induction s arbitrary: p)
  case Nil
  then show ?case by simp
next
  case (Cons x xs)
  then show ?case
    by (auto split: if_splits) (metis append_Cons)
qed

lemma run_suffix: "(p', s', g') \<in> set (run re (p, s, g)) \<Longrightarrow> \<exists>m. s = m @ s'"
proof (induction re arbitrary: p s g p' s' g')
  case (Lit c)
  then show ?case by (auto split: list.splits if_splits)
next
  case (Cls P)
  then show ?case by (auto split: list.splits if_splits)
next
  case (Seq a b)
  then obtain p1 s1 g1 where 1: "(p1, s1, g1) \<in> set (run a (p, s, g))"
    and 2: "(p', s', g') \<in> set (run b (p1, s1, g1))"
    by auto
  obtain m1 where "s = m1 @ s1"
    using Seq.IH(1) [OF 1] by blast
  moreover obtain m2 where "s1 = m2 @ s'"
    using Seq.IH(2) [OF 2] by blast
  ultimately show ?case by simp
next
  case (Alt a b)
  then show ?case by auto
next
  case (PlusG P)
  then show ?case by (auto dest: steps_suffix)
next
  case (PlusL P)
  then show ?case by (auto dest: steps_suffix)
next
  case (Grp a)
  then show ?case by auto
next
  case Bol
  then show ?case by (auto split: list.splits if_splits)
next
  case Eol
  then show ?case by (auto split: list.splits if_splits)
qed

text \<open>Putting every match back gives the subject.\<close>

lemma emit_scan: "emit (\<lambda>_ m _. m) k (scan re p s) = s"
proof (induction s arbitrary: p k rule: length_induct)
  case (1 s)
  show ?case
  proof (cases "run re (p, s, [])")
    case Nil
    show ?thesis
    proof (cases s)
      case Nil
      then show ?thesis using \<open>run re (p, s, []) = []\<close> by (simp add: scan_Nil)
    next
      case (Cons x xs)
      then show ?thesis
        using \<open>run re (p, s, []) = []\<close> 1 by (simp add: scan_Cons)
    qed
  next
    case (Cons st sts)
    obtain p' s' g where st: "st = (p', s', g)"
      by (cases st)
    then have "(p', s', g) \<in> set (run re (p, s, []))"
      using Cons by simp
    then obtain m where m: "s = m @ s'"
      using run_suffix by blast
    show ?thesis
    proof (cases "length s' < length s")
      case True
      then have "scan re p s = M m g # scan re p' s'"
        using Cons st m by (subst scan.simps) simp
      then show ?thesis
        using 1 True m by simp
    next
      case False
      then have "m = []"
        using m by simp
      show ?thesis
      proof (cases s)
        case Nil
        then show ?thesis
          using Cons st by (simp add: scan_Nil)
      next
        case (Cons x xs)
        then have "scan re p s = M [] g # C x # scan re (x # p) xs"
          using \<open>run re (p, s, []) = st # sts\<close> st False by (simp add: scan_Cons)
        then show ?thesis
          using 1 Cons by simp
      qed
    qed
  qed
qed

lemma weave_Cons: "weave ((x # g) # gs) ms = x # weave (g # gs) ms"
  by (cases ms) simp_all

text \<open>
  The tokens of a scan as prose and spans in turn, and what a replacement that numbers
  the matches makes of them.
\<close>

lemma tokens_weave:
  "\<exists>gaps. length gaps = Suc (length (concat (map (\<lambda>t. case t of C _ \<Rightarrow> [] | M m _ \<Rightarrow> [m]) ts)))
     \<and> emit (\<lambda>_ m _. m) k ts
         = weave gaps (concat (map (\<lambda>t. case t of C _ \<Rightarrow> [] | M m _ \<Rightarrow> [m]) ts))
     \<and> emit (\<lambda>index _ _. h index) k ts
         = weave gaps (map h [k..<k + length (concat (map (\<lambda>t. case t of C _ \<Rightarrow> [] | M m _ \<Rightarrow> [m]) ts))])"
proof (induction ts arbitrary: k)
  case Nil
  show ?case
    by (rule exI [of _ "[[]]"]) simp
next
  case (Cons t ts)
  let ?ms = "concat (map (\<lambda>t. case t of C _ \<Rightarrow> [] | M m _ \<Rightarrow> [m]) ts)"
  show ?case
  proof (cases t)
    case (C x)
    obtain gaps where len: "length gaps = Suc (length ?ms)"
      and same: "emit (\<lambda>_ m _. m) k ts = weave gaps ?ms"
      and out: "emit (\<lambda>index _ _. h index) k ts = weave gaps (map h [k..<k + length ?ms])"
      using Cons [of k] by blast
    obtain g gs where gaps: "gaps = g # gs"
      using len by (cases gaps) simp_all
    show ?thesis
      by (rule exI [of _ "(x # g) # gs"]) (use C len same out gaps in \<open>simp add: weave_Cons\<close>)
  next
    case (M m g0)
    obtain gaps where len: "length gaps = Suc (length ?ms)"
      and same: "emit (\<lambda>_ m _. m) (Suc k) ts = weave gaps ?ms"
      and out: "emit (\<lambda>index _ _. h index) (Suc k) ts
                  = weave gaps (map h [Suc k..<Suc k + length ?ms])"
      using Cons [of "Suc k"] by blast
    show ?thesis
      by (rule exI [of _ "[] # gaps"])
         (use M len same out in \<open>simp add: upt_conv_Cons del: upt_Suc\<close>)
  qed
qed


lemma sentinelRegex_unanchored: "\<not> anchored sentinelRegex"
  by (simp add: sentinelRegex_def)

lemma sentinel_scan_plain:
  "9580 \<notin> set pre \<Longrightarrow>
   scan sentinelRegex p (pre @ rest) = map C pre @ scan sentinelRegex (rev pre @ p) rest"
proof (induction pre arbitrary: p)
  case Nil
  then show ?case by simp
next
  case (Cons x pre)
  have "run sentinelRegex (p, x # pre @ rest, []) = []"
    using Cons.prems by (simp add: sentinelRegex_def)
  then have "scan sentinelRegex p (x # pre @ rest) = C x # scan sentinelRegex (x # p) (pre @ rest)"
    by (rule scan_skip)
  then show ?case
    using Cons by simp
qed

lemma sentinel_scan_end: "scan sentinelRegex p [] = []"
  by (simp add: scan_Nil sentinelRegex_def)

lemma sentinel_match:
  "\<exists>rest. run sentinelRegex (p, sentinel k @ s, [])
           = (rev (sentinel k) @ p, s, [dec k]) # rest"
proof -
  have "case 9580 # s of [] \<Rightarrow> True | c # _ \<Rightarrow> \<not> is_digit c"
    by (simp add: is_digit_def)
  then obtain rest1 where "run (PlusG is_digit) (9580 # p, dec k @ 9580 # s, [])
      = (rev (dec k) @ 9580 # p, 9580 # s, []) # rest1"
    using run_PlusG_block [OF dec_digits dec_not_Nil] by blast
  then have "run (Grp (PlusG is_digit)) (9580 # p, dec k @ 9580 # s, [])
      = (rev (dec k) @ 9580 # p, 9580 # s, [dec k])
        # map (\<lambda>st. (fst st, fst (snd st),
                      snd (snd st) @ [take (length (dec k @ 9580 # s) - length (fst (snd st)))
                                         (dec k @ 9580 # s)])) rest1"
    unfolding run_Grp by simp
  moreover have "run (Lit 9580) (rev (dec k) @ 9580 # p, 9580 # s, [dec k])
      = (9580 # rev (dec k) @ 9580 # p, s, [dec k]) # []"
    by simp
  ultimately obtain rest where "run (Seq (Grp (PlusG is_digit)) (Lit 9580))
        (9580 # p, dec k @ 9580 # s, [])
      = (9580 # rev (dec k) @ 9580 # p, s, [dec k]) # rest"
    using run_Seq_first by blast
  then show ?thesis
    by (simp add: sentinelRegex_def sentinel_def)
qed

lemma sentinel_tokens:
  assumes "9580 \<notin> set pre"
  shows "scan sentinelRegex [] (pre @ sentinel k @ post)
           = map C pre @ M (sentinel k) [dec k] # scan sentinelRegex [] post"
proof -
  obtain rest where "run sentinelRegex (rev pre @ [], sentinel k @ post, [])
      = (rev (sentinel k) @ rev pre @ [], post, [dec k]) # rest"
    using sentinel_match by blast
  moreover have "sentinel k \<noteq> []"
    by (simp add: sentinel_def)
  ultimately have "scan sentinelRegex (rev pre @ []) (sentinel k @ post)
      = M (sentinel k) [dec k] # scan sentinelRegex (rev (sentinel k) @ rev pre @ []) post"
    by (rule scan_match)
  also have "scan sentinelRegex (rev (sentinel k) @ rev pre @ []) post = scan sentinelRegex [] post"
    using sentinelRegex_unanchored by (rule scan_unanchored)
  finally show ?thesis
    using sentinel_scan_plain [OF assms, of "[]" "sentinel k @ post"] by simp
qed

text \<open>
  Restoring a text in which the sentinels \<open>k\<close>, \<open>k + 1\<close>, ... stand in order between
  pieces of prose that hold no U+256C.
\<close>

lemma restoreMath_weave:
  assumes "\<forall>g\<in>set gaps. 9580 \<notin> set g" and "length gaps = Suc n"
    and "k + n \<le> length matches" and "length matches \<le> 2 ^ 53"
  shows "restoreMath matches (weave gaps (map sentinel [k..<k + n]))
           = weave gaps (map (\<lambda>index. matches ! index) [k..<k + n])"
  using assms
proof (induction n arbitrary: gaps k)
  case 0
  then obtain g where gaps: "gaps = [g]"
    by (cases gaps) simp_all
  then have "9580 \<notin> set g"
    using 0 by simp
  then have "scan sentinelRegex [] g = map C g"
    using sentinel_scan_plain [of g "[]" "[]"] by (simp add: sentinel_scan_end)
  then show ?case
    using emit_plain [of _ 0 g "[]"] by (simp add: gaps restoreMath_def replace_g_def)
next
  case (Suc n)
  then obtain g gs where gaps: "gaps = g # gs"
    by (cases gaps) simp_all
  have g: "9580 \<notin> set g" and gs: "\<forall>g\<in>set gs. 9580 \<notin> set g" "length gs = Suc n"
    using Suc.prems gaps by simp_all
  let ?f = "\<lambda>_ _ g. case toNumber (hd g) of
                        Infinity \<Rightarrow> js ''undefined''
                      | Finite index \<Rightarrow>
                          (case nth_opt matches index of
                             None \<Rightarrow> js ''undefined''
                           | Some span \<Rightarrow> span)"
  let ?rest = "weave gs (map sentinel [Suc k..<Suc k + n])"
  have "k < 2 ^ 53"
    using Suc.prems by simp
  then have number: "toNumber (dec k) = Finite k"
    by (simp add: toNumber_def to_number_dec toDouble_small)
  have "k < length matches"
    using Suc.prems by simp
  then have span: "?f 0 (sentinel k) [dec k] = matches ! k"
    by (simp add: number nth_opt_def)
  have ih: "restoreMath matches ?rest = weave gs (map (\<lambda>index. matches ! index) [Suc k..<Suc k + n])"
    using Suc.IH [OF gs, of "Suc k"] Suc.prems by simp
  have "weave gaps (map sentinel [k..<k + Suc n]) = g @ sentinel k @ ?rest"
    by (simp add: gaps upt_conv_Cons del: upt_Suc)
  then have "restoreMath matches (weave gaps (map sentinel [k..<k + Suc n]))
      = emit ?f 0 (map C g @ M (sentinel k) [dec k] # scan sentinelRegex [] ?rest)"
    using sentinel_tokens [OF g] by (simp add: restoreMath_def replace_g_def)
  also have "\<dots> = g @ matches ! k @ emit ?f 0 (scan sentinelRegex [] ?rest)"
    using span by (simp add: emit_plain emit_no_index [of _ "Suc 0"])
  also have "emit ?f 0 (scan sentinelRegex [] ?rest) = restoreMath matches ?rest"
    by (simp add: restoreMath_def replace_g_def)
  finally show ?case
    using ih by (simp add: gaps upt_conv_Cons del: upt_Suc)
qed


lemmas math_ev = ev mathStep_md_def mathStep_html_def normalizeMath_def displayMathRegex_def
  LatexRegex_md_def LatexRegex_html_def codeFenceRegex_def sentinelRegex_def sentinel_def
  restoreMath_def match_g_def test_def match_first_def is_line_terminator_def dot_def any_def
  is_space_def is_digit_def nl_def Let_def escapeUnderscores_def

text \<open>
  Claim C5 says that every math span is replaced by a sentinel before the round trip
  and comes back with its literal text, in both outputs. The Markdown step first
  rewrites the bracket delimiters to dollar signs, and its expression wants white
  space after a closing dollar sign: the span at the end of \<open>spanAtEnd\<close> gets no
  sentinel, the round trip sees it bare, and one that escapes underscores changes it,
  while the HTML step keeps it. And a text that holds U+256C and a digit before a span
  makes a longer sentinel with it, which is restored as \<open>undefined\<close>, and the span is
  lost.
\<close>

theorem math_span_not_always_kept:
  "mathStep_md escapeUnderscores spanAtEnd = js ''The result is $x'' @ [92] @ js ''_1$''
   \<and> mathStep_html escapeUnderscores spanAtEnd = spanAtEnd
   \<and> mathStep_md (\<lambda>t. t) (spanAfterSentinel (js '' '')) = js ''undefined0'' @ [9580] @ js ''ok''
   \<and> mathStep_html (\<lambda>t. t) (spanAfterSentinel []) = js ''undefined0'' @ [9580] @ js '' ok''"
proof -
  have small: "toNumber [48] = Finite 0" "toNumber [53] = Finite 5"
    by (simp_all add: toNumber_def to_number_def toDouble_small)
  have "mathStep_md escapeUnderscores spanAtEnd = js ''The result is $x'' @ [92] @ js ''_1$''"
    by (simp add: math_ev spanAtEnd_def)
  moreover have "mathStep_html escapeUnderscores spanAtEnd = spanAtEnd"
    by (simp add: math_ev spanAtEnd_def small nth_opt_def)
  moreover have "mathStep_md (\<lambda>t. t) (spanAfterSentinel (js '' ''))
      = js ''undefined0'' @ [9580] @ js ''ok''"
    by (simp add: math_ev spanAfterSentinel_def small nth_opt_def)
  moreover have "mathStep_html (\<lambda>t. t) (spanAfterSentinel [])
      = js ''undefined0'' @ [9580] @ js '' ok''"
    by (simp add: math_ev spanAfterSentinel_def small nth_opt_def)
  ultimately show ?thesis
    by (intro conjI)
qed

text \<open>
  Claim C5 as amended. Replacing the matches of an expression by numbered sentinels
  leaves the prose between them as it is: the text is prose and matched spans in
  turn, and the protected text the same prose with sentinel \<open>n\<close> for span \<open>n\<close>. For a
  text that does not test as a code block and has a match (the Markdown step matches
  in the text with the bracket delimiters rewritten, the HTML step in the text as it
  is, and rewrites the delimiters of the prose after protecting), if the round trip
  returns the sentinels in order between pieces of prose that hold no U+256C, the
  step returns that prose with span \<open>n\<close>, as matched, for sentinel \<open>n\<close>.
\<close>

theorem math_spans_restored:
  "(\<exists>gaps. length gaps = Suc (length (match_g re input))
       \<and> input = weave gaps (match_g re input)
       \<and> replace_g re (\<lambda>index _ _. sentinel index) input
           = weave gaps (map sentinel [0..<length (match_g re input)]))
   \<and> (\<not> test codeFenceRegex (normalizeMath input)
        \<and> match_g LatexRegex_md (normalizeMath input) = matches
        \<and> matches \<noteq> [] \<and> length matches \<le> 2 ^ 53
        \<and> roundTrip (replace_g LatexRegex_md (\<lambda>index _ _. sentinel index) (normalizeMath input))
            = weave prose (map sentinel [0..<length matches])
        \<and> length prose = Suc (length matches) \<and> (\<forall>piece\<in>set prose. 9580 \<notin> set piece)
      \<longrightarrow> mathStep_md roundTrip input = weave prose matches)
   \<and> (\<not> test codeFenceRegex input
        \<and> match_g LatexRegex_html input = matches
        \<and> matches \<noteq> [] \<and> length matches \<le> 2 ^ 53
        \<and> roundTrip (normalizeMath (replace_g LatexRegex_html (\<lambda>index _ _. sentinel index) input))
            = weave prose (map sentinel [0..<length matches])
        \<and> length prose = Suc (length matches) \<and> (\<forall>piece\<in>set prose. 9580 \<notin> set piece)
      \<longrightarrow> mathStep_html roundTrip input = weave prose matches)"
proof (intro conjI impI)
  obtain gaps where "length gaps
        = Suc (length (concat (map (\<lambda>t. case t of C _ \<Rightarrow> [] | M m _ \<Rightarrow> [m]) (scan re [] input))))"
    and "emit (\<lambda>_ m _. m) 0 (scan re [] input)
        = weave gaps (concat (map (\<lambda>t. case t of C _ \<Rightarrow> [] | M m _ \<Rightarrow> [m]) (scan re [] input)))"
    and "emit (\<lambda>index _ _. sentinel index) 0 (scan re [] input)
        = weave gaps (map sentinel
            [0..<0 + length (concat (map (\<lambda>t. case t of C _ \<Rightarrow> [] | M m _ \<Rightarrow> [m])
                                         (scan re [] input)))])"
    using tokens_weave [of "scan re [] input" 0 sentinel] by blast
  then show "\<exists>gaps. length gaps = Suc (length (match_g re input))
       \<and> input = weave gaps (match_g re input)
       \<and> replace_g re (\<lambda>index _ _. sentinel index) input
           = weave gaps (map sentinel [0..<length (match_g re input)])"
    by (intro exI [of _ gaps]) (simp add: match_g_def replace_g_def emit_scan)
next
  assume a: "\<not> test codeFenceRegex (normalizeMath input)
        \<and> match_g LatexRegex_md (normalizeMath input) = matches
        \<and> matches \<noteq> [] \<and> length matches \<le> 2 ^ 53
        \<and> roundTrip (replace_g LatexRegex_md (\<lambda>index _ _. sentinel index) (normalizeMath input))
            = weave prose (map sentinel [0..<length matches])
        \<and> length prose = Suc (length matches) \<and> (\<forall>piece\<in>set prose. 9580 \<notin> set piece)"
  then have "mathStep_md roundTrip input
      = restoreMath matches (weave prose (map sentinel [0..<0 + length matches]))"
    by (simp add: mathStep_md_def Let_def)
  also have "\<dots> = weave prose (map (\<lambda>index. matches ! index) [0..<0 + length matches])"
    using a by (intro restoreMath_weave) simp_all
  finally show "mathStep_md roundTrip input = weave prose matches"
    by (simp add: map_nth)
next
  assume a: "\<not> test codeFenceRegex input
        \<and> match_g LatexRegex_html input = matches
        \<and> matches \<noteq> [] \<and> length matches \<le> 2 ^ 53
        \<and> roundTrip (normalizeMath (replace_g LatexRegex_html (\<lambda>index _ _. sentinel index) input))
            = weave prose (map sentinel [0..<length matches])
        \<and> length prose = Suc (length matches) \<and> (\<forall>piece\<in>set prose. 9580 \<notin> set piece)"
  then have "mathStep_html roundTrip input
      = restoreMath matches (weave prose (map sentinel [0..<0 + length matches]))"
    by (simp add: mathStep_html_def Let_def)
  also have "\<dots> = weave prose (map (\<lambda>index. matches ! index) [0..<0 + length matches])"
    using a by (intro restoreMath_weave) simp_all
  finally show "mathStep_html roundTrip input = weave prose matches"
    by (simp add: map_nth)
qed

theorem math_spans_restored_witness:
  "match_g LatexRegex_html spanInside = [[92] @ js ''(x_1'' @ [92] @ js '')'']
   \<and> match_g LatexRegex_md (normalizeMath spanInside) = [js '' $x_1$ '']
   \<and> (\<exists>gaps. length gaps = 2
        \<and> spanInside = weave gaps [[92] @ js ''(x_1'' @ [92] @ js '')'']
        \<and> replace_g LatexRegex_html (\<lambda>index _ _. sentinel index) spanInside
            = weave gaps [sentinel 0])
   \<and> mathStep_md (\<lambda>t. js ''> '' @ escapeUnderscores t) spanInside = js ''> so $x_1$ holds''
   \<and> mathStep_html (\<lambda>t. js ''<p>'' @ escapeUnderscores t @ js ''</p>'') spanInside
       = js ''<p>'' @ spanInside @ js ''</p>''"
proof -
  have html: "match_g LatexRegex_html spanInside = [[92] @ js ''(x_1'' @ [92] @ js '')'']"
    by (simp add: math_ev spanInside_def)
  have norm: "normalizeMath spanInside = js ''so $x_1$ holds''"
    by (simp add: math_ev spanInside_def)
  have md: "match_g LatexRegex_md (normalizeMath spanInside) = [js '' $x_1$ '']"
    unfolding norm by (simp add: math_ev)
  have fence: "\<not> test codeFenceRegex spanInside" "\<not> test codeFenceRegex (normalizeMath spanInside)"
    unfolding norm by (simp_all add: math_ev spanInside_def)
  have p_md: "(\<lambda>t. js ''> '' @ escapeUnderscores t)
        (replace_g LatexRegex_md (\<lambda>index _ _. sentinel index) (normalizeMath spanInside))
      = weave [js ''> so'', js ''holds''] (map sentinel [0..<length [js '' $x_1$ '']])"
    unfolding norm by (simp add: math_ev)
  have p_html: "(\<lambda>t. js ''<p>'' @ escapeUnderscores t @ js ''</p>'')
        (normalizeMath (replace_g LatexRegex_html (\<lambda>index _ _. sentinel index) spanInside))
      = weave [js ''<p>so '', js '' holds</p>'']
          (map sentinel [0..<length [[92] @ js ''(x_1'' @ [92] @ js '')'']])"
    by (simp add: math_ev spanInside_def)
  have 1: "\<exists>gaps. length gaps = 2
        \<and> spanInside = weave gaps [[92] @ js ''(x_1'' @ [92] @ js '')'']
        \<and> replace_g LatexRegex_html (\<lambda>index _ _. sentinel index) spanInside
            = weave gaps [sentinel 0]"
    using math_spans_restored [where re = LatexRegex_html and input = spanInside, THEN conjunct1]
    unfolding html by (simp add: numeral_2_eq_2)
  have 2: "mathStep_md (\<lambda>t. js ''> '' @ escapeUnderscores t) spanInside = js ''> so $x_1$ holds''"
    using math_spans_restored [where input = spanInside
        and roundTrip = "\<lambda>t. js ''> '' @ escapeUnderscores t" and matches = "[js '' $x_1$ '']"
        and prose = "[js ''> so'', js ''holds'']"] fence md p_md
    by (simp add: js_def)
  have 3: "mathStep_html (\<lambda>t. js ''<p>'' @ escapeUnderscores t @ js ''</p>'') spanInside
       = js ''<p>'' @ spanInside @ js ''</p>''"
    using math_spans_restored [where input = spanInside
        and roundTrip = "\<lambda>t. js ''<p>'' @ escapeUnderscores t @ js ''</p>''"
        and matches = "[[92] @ js ''(x_1'' @ [92] @ js '')'']"
        and prose = "[js ''<p>so '', js '' holds</p>'']"] fence html p_html
    by (simp add: js_def spanInside_def)
  show ?thesis
    using html md 1 2 3 by (intro conjI)
qed

end
